theory Spec2Isabelle
  imports Complex_Main "HOL-Library.Sublist"
begin

section \<open>The data cleaning pipeline of Automation/automation_app.py\<close>

text \<open>
  The function \<^verbatim>\<open>clean_data(df)\<close> takes a pandas DataFrame and runs five stages on it:
  \<^verbatim>\<open>
    A. df.columns = df.columns.str.strip().str.lower().str.replace(' ', '_')
    B. df = df.drop_duplicates()
    C. if 'amount' in df.columns:  astype(str), remove ',', pd.to_numeric(coerce), fillna(0)
    D. if 'status' in df.columns:  df['status'].str.title()
    E. if 'date' in df.columns:    pd.to_datetime(coerce), dropna(subset=['date'])
  \<close>
  and returns the table with a list of log lines. The embedding below follows the
  function stage by stage. The pandas and Python operations the stages call are
  modelled by their documented behaviour on the values a cell can hold. What the
  library decides from data of its own is a parameter: the two text parsers (numbers,
  dates), Python's printing of a number, and the Unicode character database beyond
  ASCII.
\<close>

subsection \<open>Cells\<close>

text \<open>
  A Python string is the list of its code points. A cell holds text, a number, a date
  or nothing (Python's \<^verbatim>\<open>None\<close>, \<^verbatim>\<open>NaN\<close> and \<^verbatim>\<open>NaT\<close>). A number is its value; a
  date is year, month and day.
\<close>

type_synonym pystr = "nat list"

definition ascii :: "string \<Rightarrow> pystr" where
  "ascii s = map of_char s"

definition is_ascii :: "pystr \<Rightarrow> bool" where
  "is_ascii s = list_all (\<lambda>c. c < 128) s"

datatype date = Ymd nat nat nat

datatype cell = Text pystr | Number real | Date date | Missing

abbreviation Str :: "string \<Rightarrow> cell" where
  "Str s \<equiv> Text (ascii s)"

subsection \<open>The library\<close>

text \<open>
  What the stages take from pandas and Python without defining it themselves:
  \<^item> \<open>str_num\<close>: the text \<^verbatim>\<open>astype(str)\<close> gives a number (Python's \<^verbatim>\<open>str\<close>);
  \<^item> \<open>str_date\<close>: the text \<^verbatim>\<open>astype(str)\<close> gives a date;
  \<^item> \<open>parse_num\<close>: the number \<^verbatim>\<open>pd.to_numeric\<close> reads from a text, if any;
  \<^item> \<open>parse_date\<close>: the date \<^verbatim>\<open>pd.to_datetime\<close> reads from a text or number cell,
    if any; it is given the whole column, since the library may settle the format
    from the other cells;
  \<^item> \<open>uni_space\<close>, \<open>uni_cased\<close>: whether a code point beyond ASCII is whitespace
    (\<^verbatim>\<open>str.isspace\<close>), and whether it is a cased letter;
  \<^item> \<open>uni_lower\<close>: the code points \<^verbatim>\<open>str.lower\<close> gives for a code point beyond ASCII;
    it is given the code points before and after it, since the lower case of a capital
    sigma depends on them;
  \<^item> \<open>uni_title\<close>: the title-case code points of a code point beyond ASCII.
\<close>

record pandas_lib =
  str_num :: "real \<Rightarrow> pystr"
  str_date :: "date \<Rightarrow> pystr"
  parse_num :: "pystr \<Rightarrow> real option"
  parse_date :: "cell list \<Rightarrow> cell \<Rightarrow> date option"
  uni_space :: "nat \<Rightarrow> bool"
  uni_cased :: "nat \<Rightarrow> bool"
  uni_lower :: "pystr \<Rightarrow> nat \<Rightarrow> pystr \<Rightarrow> pystr"
  uni_title :: "nat \<Rightarrow> pystr"

subsection \<open>Python strings\<close>

text \<open>
  On ASCII the character classes and case mappings are fixed; beyond ASCII they are the
  library's.
\<close>

definition ascii_space :: "nat \<Rightarrow> bool" where
  "ascii_space c = ((9 \<le> c \<and> c \<le> 13) \<or> (28 \<le> c \<and> c \<le> 32))"

definition ascii_upper :: "nat \<Rightarrow> bool" where
  "ascii_upper c = (65 \<le> c \<and> c \<le> 90)"

definition ascii_lower :: "nat \<Rightarrow> bool" where
  "ascii_lower c = (97 \<le> c \<and> c \<le> 122)"

definition to_lower :: "nat \<Rightarrow> nat" where
  "to_lower c = (if ascii_upper c then c + 32 else c)"

definition to_upper :: "nat \<Rightarrow> nat" where
  "to_upper c = (if ascii_lower c then c - 32 else c)"

definition is_space :: "pandas_lib \<Rightarrow> nat \<Rightarrow> bool" where
  "is_space lib c = (if c < 128 then ascii_space c else uni_space lib c)"

definition is_cased :: "pandas_lib \<Rightarrow> nat \<Rightarrow> bool" where
  "is_cased lib c = (if c < 128 then ascii_upper c \<or> ascii_lower c else uni_cased lib c)"

text \<open>
  The lower case and the title case of one code point \<open>c\<close>, standing between \<open>pre\<close> and
  \<open>post\<close>.
\<close>

definition lower_cp :: "pandas_lib \<Rightarrow> pystr \<Rightarrow> nat \<Rightarrow> pystr \<Rightarrow> pystr" where
  "lower_cp lib pre c post = (if c < 128 then [to_lower c] else uni_lower lib pre c post)"

definition title_cp :: "pandas_lib \<Rightarrow> nat \<Rightarrow> pystr" where
  "title_cp lib c = (if c < 128 then [to_upper c] else uni_title lib c)"

text \<open>\<^verbatim>\<open>s.strip()\<close>: leading and trailing whitespace removed.\<close>

definition py_strip :: "pandas_lib \<Rightarrow> pystr \<Rightarrow> pystr" where
  "py_strip lib s = rev (dropWhile (is_space lib) (rev (dropWhile (is_space lib) s)))"

text \<open>\<^verbatim>\<open>s.lower()\<close>: every code point replaced by its lower case; \<open>pre\<close> holds the code points
  already passed.\<close>

fun lower_from :: "pandas_lib \<Rightarrow> pystr \<Rightarrow> pystr \<Rightarrow> pystr" where
  "lower_from lib pre [] = []"
| "lower_from lib pre (c # cs) = lower_cp lib pre c cs @ lower_from lib (pre @ [c]) cs"

definition py_lower :: "pandas_lib \<Rightarrow> pystr \<Rightarrow> pystr" where
  "py_lower lib s = lower_from lib [] s"

text \<open>\<^verbatim>\<open>s.replace(a, b)\<close> for one-character \<open>a\<close> and \<open>b\<close>.\<close>

definition py_replace :: "nat \<Rightarrow> nat \<Rightarrow> pystr \<Rightarrow> pystr" where
  "py_replace a b s = map (\<lambda>c. if c = a then b else c) s"

definition space_char :: nat where
  "space_char = 32"

definition underscore_char :: nat where
  "underscore_char = 95"

definition comma_char :: nat where
  "comma_char = 44"

text \<open>\<^verbatim>\<open>s.replace(',', '')\<close>: every comma removed.\<close>

definition remove_commas :: "pystr \<Rightarrow> pystr" where
  "remove_commas s = filter (\<lambda>c. c \<noteq> comma_char) s"

text \<open>
  \<^verbatim>\<open>s.title()\<close>: a code point that follows a cased one is lower-cased, any other is
  title-cased; \<open>prev\<close> says whether the previous code point was cased.
\<close>

fun title_from :: "pandas_lib \<Rightarrow> bool \<Rightarrow> pystr \<Rightarrow> pystr \<Rightarrow> pystr" where
  "title_from lib prev pre [] = []"
| "title_from lib prev pre (c # cs) =
     (if prev then lower_cp lib pre c cs else title_cp lib c)
       @ title_from lib (is_cased lib c) (pre @ [c]) cs"

definition py_title :: "pandas_lib \<Rightarrow> pystr \<Rightarrow> pystr" where
  "py_title lib s = title_from lib False [] s"

text \<open>
  Title case as the specification words it: the first character of each
  whitespace-separated word upper-cased, the rest of the word lower-cased;
  \<open>start\<close> says whether the next character starts a word.
\<close>

fun title_words_from :: "pandas_lib \<Rightarrow> bool \<Rightarrow> pystr \<Rightarrow> pystr \<Rightarrow> pystr" where
  "title_words_from lib start pre [] = []"
| "title_words_from lib start pre (c # cs) =
     (if start then title_cp lib c else lower_cp lib pre c cs)
       @ title_words_from lib (is_space lib c) (pre @ [c]) cs"

definition spec_title_case :: "pandas_lib \<Rightarrow> pystr \<Rightarrow> pystr" where
  "spec_title_case lib s = title_words_from lib True [] s"

text \<open>\<^verbatim>\<open>str(n)\<close> for a non-negative integer, as the f-string of stage B prints it.\<close>

definition digit_char :: "nat \<Rightarrow> nat" where
  "digit_char d = 48 + d"

function str_nat :: "nat \<Rightarrow> pystr" where
  "str_nat n = (if n < 10 then [digit_char n] else str_nat (n div 10) @ [digit_char (n mod 10)])"
  by pat_completeness auto
termination
  by (relation "measure id") auto

declare str_nat.simps [simp del]

subsection \<open>Tables\<close>

text \<open>The dtype of a column: \<^verbatim>\<open>object\<close>, a numeric dtype, or \<^verbatim>\<open>datetime64\<close>.\<close>

datatype dtype = ObjectD | NumericD | DatetimeD

record table =
  names :: "pystr list"
  dtypes :: "dtype list"
  rows :: "cell list list"

text \<open>A DataFrame is rectangular: every row has one cell per column.\<close>

definition wf_table :: "table \<Rightarrow> bool" where
  "wf_table t = (length (dtypes t) = length (names t) \<and>
                 list_all (\<lambda>r. length r = length (names t)) (rows t))"

text \<open>The position of the first column called \<open>n\<close>.\<close>

definition col_index :: "pystr \<Rightarrow> pystr list \<Rightarrow> nat" where
  "col_index n ns = length (takeWhile (\<lambda>x. x \<noteq> n) ns)"

definition column :: "nat \<Rightarrow> cell list list \<Rightarrow> cell list" where
  "column i rs = map (\<lambda>r. r ! i) rs"

datatype error = AttributeError | ValueError

text \<open>
  \<^verbatim>\<open>df[name]\<close> is a Series only when exactly one column has that name; with several
  it is a DataFrame, on which the calls of stages C, D and E raise.
\<close>

definition single_column :: "pystr \<Rightarrow> table \<Rightarrow> bool" where
  "single_column n t = (count_list (names t) n = 1)"

text \<open>The three column names the stages look for.\<close>

definition amount_col :: pystr where
  "amount_col = ascii ''amount''"

definition status_col :: pystr where
  "status_col = ascii ''status''"

definition date_col :: pystr where
  "date_col = ascii ''date''"

subsection \<open>Stage A: column names\<close>

definition normalize_name :: "pandas_lib \<Rightarrow> pystr \<Rightarrow> pystr" where
  "normalize_name lib n =
     py_replace space_char underscore_char (py_lower lib (py_strip lib n))"

definition standardize_headers :: "pandas_lib \<Rightarrow> table \<Rightarrow> table" where
  "standardize_headers lib t = t\<lparr>names := map (normalize_name lib) (names t)\<rparr>"

subsection \<open>Stage B: duplicate rows\<close>

text \<open>
  \<^verbatim>\<open>drop_duplicates()\<close> with its default \<^verbatim>\<open>keep='first'\<close>: a row is dropped when an
  equal row was seen before it. Two missing cells count as equal.
\<close>

fun drop_from :: "'a list \<Rightarrow> 'a list \<Rightarrow> 'a list" where
  "drop_from seen [] = []"
| "drop_from seen (r # rs) =
     (if r \<in> set seen then drop_from seen rs else r # drop_from (r # seen) rs)"

definition drop_duplicates :: "'a list \<Rightarrow> 'a list" where
  "drop_duplicates rs = drop_from [] rs"

definition remove_duplicates :: "table \<Rightarrow> table" where
  "remove_duplicates t = t\<lparr>rows := drop_duplicates (rows t)\<rparr>"

subsection \<open>Stage C: the amount column\<close>

text \<open>
  \<^verbatim>\<open>astype(str)\<close> on one cell. A missing cell prints as \<^verbatim>\<open>nan\<close> (a \<^verbatim>\<open>None\<close> prints
  as \<^verbatim>\<open>None\<close>; \<^verbatim>\<open>to_numeric\<close> turns both into NaN).
\<close>

fun astype_str :: "pandas_lib \<Rightarrow> cell \<Rightarrow> pystr" where
  "astype_str lib (Text s) = s"
| "astype_str lib (Number x) = str_num lib x"
| "astype_str lib (Date d) = str_date lib d"
| "astype_str lib Missing = ascii ''nan''"

text \<open>
  \<^verbatim>\<open>pd.to_numeric(..., errors='coerce')\<close> on one text: the text \<^verbatim>\<open>nan\<close> reads as NaN,
  and a text that does not parse is coerced to NaN.
\<close>

definition to_numeric :: "pandas_lib \<Rightarrow> pystr \<Rightarrow> cell" where
  "to_numeric lib s =
     (if s = ascii ''nan'' then Missing
      else case parse_num lib s of Some x \<Rightarrow> Number x | None \<Rightarrow> Missing)"

text \<open>
  \<^verbatim>\<open>fillna(0)\<close> on one cell. The code calls it as
  \<^verbatim>\<open>df['amount'].fillna(0, inplace=True)\<close>, which writes through to the column of
  \<^verbatim>\<open>df\<close> (pandas before 3.0), as its comment "Fill missing money with 0" says.
\<close>

fun fillna_zero :: "cell \<Rightarrow> cell" where
  "fillna_zero Missing = Number 0"
| "fillna_zero c = c"

definition amount_cell :: "pandas_lib \<Rightarrow> cell \<Rightarrow> cell" where
  "amount_cell lib c = fillna_zero (to_numeric lib (remove_commas (astype_str lib c)))"

text \<open>The log lines. Each starts with the check mark U+2705.\<close>

definition check_mark :: pystr where
  "check_mark = [9989]"

definition msg_headers :: pystr where
  "msg_headers = check_mark @ ascii '' Standardized column headers (lowercase, no spaces).''"

definition msg_removed :: "nat \<Rightarrow> pystr" where
  "msg_removed k = check_mark @ ascii '' Removed '' @ str_nat k @ ascii '' duplicate rows.''"

definition msg_amount :: pystr where
  "msg_amount = check_mark @
     ascii '' Cleaned 'Amount' column (removed commas, converted text to numbers).''"

definition msg_status :: pystr where
  "msg_status = check_mark @ ascii '' Standardized 'Status' column casing.''"

definition msg_date :: pystr where
  "msg_date = check_mark @
     ascii '' Parsed mixed Date formats into ISO standard (YYYY-MM-DD).''"

text \<open>
  A stage returns the table and the log lines it appended, or the exception it raised.
\<close>

type_synonym stage_result = "error + (table \<times> pystr list)"

definition fix_amount :: "pandas_lib \<Rightarrow> table \<Rightarrow> stage_result" where
  "fix_amount lib t =
     (if amount_col \<in> set (names t) then
        (if \<not> single_column amount_col t then Inl AttributeError
         else let i = col_index amount_col (names t) in
           Inr (t\<lparr>dtypes := (dtypes t)[i := NumericD],
                   rows := map (\<lambda>r. r[i := amount_cell lib (r ! i)]) (rows t)\<rparr>,
                [msg_amount]))
      else Inr (t, []))"

subsection \<open>Stage D: the status column\<close>

text \<open>
  The \<^verbatim>\<open>.str\<close> accessor raises AttributeError unless the column has dtype object and
  its present values are not all numbers and not all dates (pandas infers one of
  string, empty, mixed).
\<close>

fun is_text :: "cell \<Rightarrow> bool" where
  "is_text (Text s) = True"
| "is_text c = False"

fun is_number :: "cell \<Rightarrow> bool" where
  "is_number (Number x) = True"
| "is_number c = False"

fun is_date :: "cell \<Rightarrow> bool" where
  "is_date (Date d) = True"
| "is_date c = False"

definition str_accessor_ok :: "dtype \<Rightarrow> cell list \<Rightarrow> bool" where
  "str_accessor_ok dt col =
     (let vs = filter (\<lambda>c. c \<noteq> Missing) col in
      dt = ObjectD \<and> (vs = [] \<or> \<not> (list_all is_number vs \<or> list_all is_date vs)))"

text \<open>\<^verbatim>\<open>.str.title()\<close> on one cell: a value that is not text gives NaN.\<close>

fun str_title :: "pandas_lib \<Rightarrow> cell \<Rightarrow> cell" where
  "str_title lib (Text s) = Text (py_title lib s)"
| "str_title lib c = Missing"

text \<open>
  The dtype of the column \<^verbatim>\<open>.str.title()\<close> returns for the column \<open>col\<close>: object when
  a cell of \<open>col\<close> is text, and when every cell of \<open>col\<close> is missing; otherwise every
  result is NaN and pandas converts the column to float64.
\<close>

definition title_dtype :: "cell list \<Rightarrow> dtype" where
  "title_dtype col =
     (if list_ex is_text col \<or> list_all (\<lambda>c. c = Missing) col then ObjectD else NumericD)"

definition fix_status :: "pandas_lib \<Rightarrow> table \<Rightarrow> stage_result" where
  "fix_status lib t =
     (if status_col \<in> set (names t) then
        (if \<not> single_column status_col t then Inl AttributeError
         else let i = col_index status_col (names t) in
           if \<not> str_accessor_ok (dtypes t ! i) (column i (rows t)) then Inl AttributeError
           else Inr (t\<lparr>dtypes := (dtypes t)[i := title_dtype (column i (rows t))],
                        rows := map (\<lambda>r. r[i := str_title lib (r ! i)]) (rows t)\<rparr>,
                     [msg_status]))
      else Inr (t, []))"

subsection \<open>Stage E: the date column\<close>

text \<open>
  \<^verbatim>\<open>pd.to_datetime(..., errors='coerce')\<close> on one cell of the column \<open>col\<close>: a date
  stays, a missing cell is NaT, anything else is parsed and becomes NaT on failure.
\<close>

fun to_datetime :: "pandas_lib \<Rightarrow> cell list \<Rightarrow> cell \<Rightarrow> cell" where
  "to_datetime lib col (Date d) = Date d"
| "to_datetime lib col Missing = Missing"
| "to_datetime lib col c =
     (case parse_date lib col c of Some d \<Rightarrow> Date d | None \<Rightarrow> Missing)"

text \<open>\<^verbatim>\<open>dropna(subset=[name])\<close> for the column at position \<open>i\<close>.\<close>

definition dropna :: "nat \<Rightarrow> cell list list \<Rightarrow> cell list list" where
  "dropna i rs = filter (\<lambda>r. r ! i \<noteq> Missing) rs"

text \<open>The assignment \<^verbatim>\<open>df['date'] = pd.to_datetime(df['date'], errors='coerce')\<close>.\<close>

definition parse_date_column :: "pandas_lib \<Rightarrow> table \<Rightarrow> table" where
  "parse_date_column lib t =
     (let i = col_index date_col (names t); col = column i (rows t) in
      t\<lparr>dtypes := (dtypes t)[i := DatetimeD],
        rows := map (\<lambda>r. r[i := to_datetime lib col (r ! i)]) (rows t)\<rparr>)"

definition fix_date :: "pandas_lib \<Rightarrow> table \<Rightarrow> stage_result" where
  "fix_date lib t =
     (if date_col \<in> set (names t) then
        (if \<not> single_column date_col t then Inl ValueError
         else let t' = parse_date_column lib t in
           Inr (t'\<lparr>rows := dropna (col_index date_col (names t')) (rows t')\<rparr>, [msg_date]))
      else Inr (t, []))"

subsection \<open>The pipeline\<close>

definition clean_data :: "pandas_lib \<Rightarrow> table \<Rightarrow> stage_result" where
  "clean_data lib df =
     (let t1 = standardize_headers lib df;
          t2 = remove_duplicates t1;
          removed_count = length (rows t1) - length (rows t2);
          report_log = [msg_headers, msg_removed removed_count]
      in case fix_amount lib t2 of Inl e \<Rightarrow> Inl e | Inr (t3, l3) \<Rightarrow>
        (case fix_status lib t3 of Inl e \<Rightarrow> Inl e | Inr (t4, l4) \<Rightarrow>
          (case fix_date lib t4 of Inl e \<Rightarrow> Inl e | Inr (t5, l5) \<Rightarrow>
             Inr (t5, report_log @ l3 @ l4 @ l5))))"

subsection \<open>The pipeline on a store of table objects\<close>

text \<open>
  Which object each statement of \<^verbatim>\<open>clean_data\<close> writes to. A store is the list of the
  DataFrame objects alive; a reference is a position in it. The assignment to
  \<^verbatim>\<open>df.columns\<close> writes to the object the caller passed; \<^verbatim>\<open>drop_duplicates()\<close> and
  \<^verbatim>\<open>dropna()\<close> return new objects, to which \<^verbatim>\<open>df\<close> is rebound; the column assignments
  of stages C, D and E write to the object \<^verbatim>\<open>df\<close> is bound to at that point.
\<close>

type_synonym store = "table list"

definition alloc :: "store \<Rightarrow> table \<Rightarrow> store \<times> nat" where
  "alloc s t = (s @ [t], length s)"

definition clean_data_store ::
  "pandas_lib \<Rightarrow> store \<Rightarrow> nat \<Rightarrow> error + (store \<times> nat \<times> pystr list)" where
  "clean_data_store lib s df =
     (let s1 = s[df := standardize_headers lib (s ! df)];
          (s2, df2) = alloc s1 (remove_duplicates (s1 ! df));
          removed_count = length (rows (s1 ! df)) - length (rows (s2 ! df2));
          report_log = [msg_headers, msg_removed removed_count]
      in case fix_amount lib (s2 ! df2) of Inl e \<Rightarrow> Inl e | Inr (t3, l3) \<Rightarrow>
        (let s3 = s2[df2 := t3] in
         case fix_status lib (s3 ! df2) of Inl e \<Rightarrow> Inl e | Inr (t4, l4) \<Rightarrow>
        (let s4 = s3[df2 := t4] in
         case fix_date lib (s4 ! df2) of Inl e \<Rightarrow> Inl e | Inr (t5, l5) \<Rightarrow>
           (if date_col \<in> set (names (s4 ! df2)) then
              (let (s5, df5) = alloc (s4[df2 := parse_date_column lib (s4 ! df2)]) t5
               in Inr (s5, df5, report_log @ l3 @ l4 @ l5))
            else Inr (s4, df2, report_log @ l3 @ l4 @ l5)))))"

text \<open>
  The call site, \<^verbatim>\<open>df_clean, logs = clean_data(df_raw.copy())\<close>: the copy is a new
  object, and the pipeline is given the copy.
\<close>

definition run_pipeline ::
  "pandas_lib \<Rightarrow> store \<Rightarrow> nat \<Rightarrow> error + (store \<times> nat \<times> pystr list)" where
  "run_pipeline lib s df_raw =
     (let (s1, c) = alloc s (s ! df_raw) in clean_data_store lib s1 c)"

text \<open>The object at reference \<open>r\<close> once a run has returned.\<close>

definition object_after :: "error + (store \<times> nat \<times> pystr list) \<Rightarrow> nat \<Rightarrow> table option" where
  "object_after res r = (case res of Inl e \<Rightarrow> None | Inr (s, df, l) \<Rightarrow> Some (s ! r))"

subsection \<open>A small instance of the library\<close>

text \<open>
  For running the pipeline on concrete tables, a partial instance: it reads whole
  numbers written in decimal and dates written \<^verbatim>\<open>YYYY-MM-DD\<close>; beyond ASCII it knows
  the letters U+00C0 to U+00FF and the whitespace U+0085 and U+00A0, and takes every
  other code point for an uncased character that is its own lower and title case.
\<close>

definition digit_val :: "nat \<Rightarrow> nat option" where
  "digit_val c = (if 48 \<le> c \<and> c \<le> 57 then Some (c - 48) else None)"

fun digits_val :: "nat \<Rightarrow> pystr \<Rightarrow> nat option" where
  "digits_val acc [] = Some acc"
| "digits_val acc (c # cs) =
     (case digit_val c of None \<Rightarrow> None | Some d \<Rightarrow> digits_val (10 * acc + d) cs)"

definition sample_parse_num :: "pystr \<Rightarrow> real option" where
  "sample_parse_num s = (if s = [] then None else map_option real (digits_val 0 s))"

definition sample_str_num :: "real \<Rightarrow> pystr" where
  "sample_str_num x = str_nat (nat \<lfloor>x\<rfloor>)"

definition sample_str_date :: "date \<Rightarrow> pystr" where
  "sample_str_date d =
     (case d of Ymd y m dd \<Rightarrow> str_nat y @ ascii ''-'' @ str_nat m @ ascii ''-'' @ str_nat dd)"

definition sample_parse_date :: "cell list \<Rightarrow> cell \<Rightarrow> date option" where
  "sample_parse_date col c =
     (case c of
        Text s \<Rightarrow>
          (if length s = 10 \<and> s ! 4 = 45 \<and> s ! 7 = 45 then
             (case (digits_val 0 (take 4 s), digits_val 0 (take 2 (drop 5 s)),
                    digits_val 0 (drop 8 s)) of
                (Some y, Some m, Some d) \<Rightarrow>
                  (if 1 \<le> m \<and> m \<le> 12 \<and> 1 \<le> d \<and> d \<le> 31 then Some (Ymd y m d) else None)
              | _ \<Rightarrow> None)
           else None)
      | _ \<Rightarrow> None)"

definition sample_space :: "nat \<Rightarrow> bool" where
  "sample_space c = (c = 133 \<or> c = 160)"

definition sample_cased :: "nat \<Rightarrow> bool" where
  "sample_cased c = (192 \<le> c \<and> c \<le> 255 \<and> c \<noteq> 215 \<and> c \<noteq> 247)"

definition sample_lower :: "pystr \<Rightarrow> nat \<Rightarrow> pystr \<Rightarrow> pystr" where
  "sample_lower pre c post = (if 192 \<le> c \<and> c \<le> 222 \<and> c \<noteq> 215 then [c + 32] else [c])"

definition sample_title :: "nat \<Rightarrow> pystr" where
  "sample_title c =
     (if 224 \<le> c \<and> c \<le> 254 \<and> c \<noteq> 247 then [c - 32]
      else if c = 223 then [83, 115]
      else if c = 255 then [376]
      else [c])"

definition sample_lib :: pandas_lib where
  "sample_lib = \<lparr>str_num = sample_str_num, str_date = sample_str_date,
                  parse_num = sample_parse_num, parse_date = sample_parse_date,
                  uni_space = sample_space, uni_cased = sample_cased,
                  uni_lower = sample_lower, uni_title = sample_title\<rparr>"

text \<open>Two rows that differ only in the casing of their status.\<close>

definition paid_table :: table where
  "paid_table = \<lparr>names = [ascii ''Status''], dtypes = [ObjectD],
                  rows = [[Str ''PAID''], [Str ''paid'']]\<rparr>"

text \<open>A table with one column of each role, and a duplicated row.\<close>

definition sales_table :: table where
  "sales_table =
     \<lparr>names = [ascii '' Customer Name '', ascii ''Date'', ascii ''Amount'', ascii ''Status''],
      dtypes = [ObjectD, ObjectD, ObjectD, ObjectD],
      rows = [[Str ''John Doe'', Str ''2024-01-01'', Str ''1,000'', Str ''PAID''],
              [Str ''Ali Khan'', Missing, Number 250, Str ''pending''],
              [Str ''John Doe'', Str ''2024-01-01'', Str ''1,000'', Str ''PAID''],
              [Str ''Sarah Connor'', Str ''2024-01-04'', Missing, Str ''not-paid'']]\<rparr>"

text \<open>What the pipeline returns for \<open>sales_table\<close>.\<close>

definition sales_clean :: table where
  "sales_clean =
     \<lparr>names = [ascii ''customer_name'', ascii ''date'', ascii ''amount'', ascii ''status''],
      dtypes = [ObjectD, DatetimeD, NumericD, ObjectD],
      rows = [[Str ''John Doe'', Date (Ymd 2024 1 1), Number 1000, Str ''Paid''],
              [Str ''Sarah Connor'', Date (Ymd 2024 1 4), Number 0, Str ''Not-Paid'']]\<rparr>"

definition sales_logs :: "pystr list" where
  "sales_logs = [msg_headers, msg_removed 1, msg_amount, msg_status, msg_date]"



text \<open>What the pipeline returns for \<open>paid_table\<close>, and for that result in turn.\<close>

definition paid_clean :: table where
  "paid_clean = \<lparr>names = [ascii ''status''], dtypes = [ObjectD],
                  rows = [[Str ''Paid''], [Str ''Paid'']]\<rparr>"

definition paid_clean_again :: table where
  "paid_clean_again = \<lparr>names = [ascii ''status''], dtypes = [ObjectD],
                        rows = [[Str ''Paid'']]\<rparr>"

text \<open>
  A status column that holds values but no text, with what the pipeline returns for it.
\<close>

definition codes_table :: table where
  "codes_table = \<lparr>names = [ascii ''status''], dtypes = [ObjectD],
                   rows = [[Date (Ymd 2024 1 1)], [Number 5]]\<rparr>"

definition codes_clean :: table where
  "codes_clean = \<lparr>names = [ascii ''status''], dtypes = [NumericD],
                   rows = [[Missing], [Missing]]\<rparr>"



definition status_table :: table where
  "status_table = \<lparr>names = [ascii ''status''], dtypes = [ObjectD],
                    rows = [[Str ''PAID''], [Str ''pending''], [Str ''not-paid''],
                            [Text (233 # ascii ''lan'')]]\<rparr>"

definition status_fixed :: table where
  "status_fixed = \<lparr>names = [ascii ''status''], dtypes = [ObjectD],
                    rows = [[Str ''Paid''], [Str ''Pending''], [Str ''Not-Paid''],
                            [Text (201 # ascii ''lan'')]]\<rparr>"

definition date_table :: table where
  "date_table = \<lparr>names = [ascii ''date''], dtypes = [ObjectD],
                  rows = [[Str ''2024-01-03''], [Missing], [Str ''soon'']]\<rparr>"

definition date_fixed :: table where
  "date_fixed = \<lparr>names = [ascii ''date''], dtypes = [DatetimeD],
                  rows = [[Date (Ymd 2024 1 3)]]\<rparr>"

text \<open>A header beyond ASCII: \<^verbatim>\<open>CAF\<close>, U+00C9, \<^verbatim>\<open> Total\<close>, and a no-break space.\<close>

definition cafe_name :: pystr where
  "cafe_name = ascii ''CAF'' @ [201] @ ascii '' Total'' @ [160]"

text \<open>
  The store after the call site has run the pipeline on \<open>sales_table\<close>: the caller's
  table, its copy with the new header, the deduplicated table with its columns
  rewritten, and the table \<^verbatim>\<open>dropna\<close> returned.
\<close>

definition sales_parsed :: table where
  "sales_parsed =
     \<lparr>names = [ascii ''customer_name'', ascii ''date'', ascii ''amount'', ascii ''status''],
      dtypes = [ObjectD, DatetimeD, NumericD, ObjectD],
      rows = [[Str ''John Doe'', Date (Ymd 2024 1 1), Number 1000, Str ''Paid''],
              [Str ''Ali Khan'', Missing, Number 250, Str ''Pending''],
              [Str ''Sarah Connor'', Date (Ymd 2024 1 4), Number 0, Str ''Not-Paid'']]\<rparr>"

definition sales_store :: store where
  "sales_store =
     [sales_table, standardize_headers sample_lib sales_table, sales_parsed, sales_clean]"

section \<open>Properties\<close>

subsection \<open>ASCII text\<close>

lemma is_space_ascii: "c < 128 \<Longrightarrow> is_space lib c = ascii_space c"
  by (simp add: is_space_def)

lemma is_cased_ascii: "c < 128 \<Longrightarrow> is_cased lib c = (ascii_upper c \<or> ascii_lower c)"
  by (simp add: is_cased_def)

lemma lower_cp_ascii: "c < 128 \<Longrightarrow> lower_cp lib pre c post = [to_lower c]"
  by (simp add: lower_cp_def)

lemma title_cp_ascii: "c < 128 \<Longrightarrow> title_cp lib c = [to_upper c]"
  by (simp add: title_cp_def)

lemma to_lower_ascii: "c < 128 \<Longrightarrow> to_lower c < 128"
  by (auto simp: to_lower_def ascii_upper_def)

lemma to_upper_ascii: "c < 128 \<Longrightarrow> to_upper c < 128"
  by (auto simp: to_upper_def ascii_lower_def)

lemma to_lower_not_upper: "\<not> ascii_upper (to_lower c)"
  by (auto simp: to_lower_def ascii_upper_def)

lemma to_upper_not_lower: "\<not> ascii_lower (to_upper c)"
  by (auto simp: to_upper_def ascii_lower_def)

lemma to_lower_idem: "to_lower (to_lower c) = to_lower c"
  using to_lower_not_upper [of c] by (simp add: to_lower_def [of "to_lower c"])

lemma to_upper_idem: "to_upper (to_upper c) = to_upper c"
  using to_upper_not_lower [of c] by (simp add: to_upper_def [of "to_upper c"])

lemma to_lower_to_upper: "to_lower (to_upper c) = to_lower c"
  by (auto simp: to_upper_def to_lower_def ascii_lower_def ascii_upper_def)

lemma to_upper_to_lower: "to_upper (to_lower c) = to_upper c"
  by (auto simp: to_upper_def to_lower_def ascii_lower_def ascii_upper_def)

lemma letter_to_lower: "(ascii_upper (to_lower c) \<or> ascii_lower (to_lower c))
    = (ascii_upper c \<or> ascii_lower c)"
  by (auto simp: to_lower_def ascii_lower_def ascii_upper_def)

lemma letter_to_upper: "(ascii_upper (to_upper c) \<or> ascii_lower (to_upper c))
    = (ascii_upper c \<or> ascii_lower c)"
  by (auto simp: to_upper_def ascii_lower_def ascii_upper_def)

lemma ascii_space_to_lower: "ascii_space (to_lower c) = ascii_space c"
  by (auto simp: to_lower_def ascii_upper_def ascii_space_def)

lemma letter_not_space: "ascii_upper c \<or> ascii_lower c \<Longrightarrow> \<not> ascii_space c"
  by (auto simp: ascii_upper_def ascii_lower_def ascii_space_def)

lemma is_ascii_Cons: "is_ascii (c # cs) = (c < 128 \<and> is_ascii cs)"
  by (simp add: is_ascii_def)

lemma is_ascii_Nil: "is_ascii []"
  by (simp add: is_ascii_def)

lemma is_ascii_set: "is_ascii s = (\<forall>c \<in> set s. c < 128)"
  by (simp add: is_ascii_def list_all_iff)

lemma lower_from_ascii: "is_ascii s \<Longrightarrow> lower_from lib pre s = map to_lower s"
  by (induction s arbitrary: pre) (simp_all add: is_ascii_Cons lower_cp_ascii)

lemma py_lower_ascii: "is_ascii s \<Longrightarrow> py_lower lib s = map to_lower s"
  by (simp add: py_lower_def lower_from_ascii)

lemma py_strip_ascii:
  assumes "is_ascii s"
  shows "py_strip lib s = rev (dropWhile ascii_space (rev (dropWhile ascii_space s)))"
proof -
  have 1: "dropWhile (is_space lib) s = dropWhile ascii_space s"
    using assms by (intro dropWhile_cong) (simp_all add: is_ascii_set is_space_ascii)
  have "set (rev (dropWhile ascii_space s)) \<subseteq> set s"
    by (auto dest: set_dropWhileD)
  then have 2: "dropWhile (is_space lib) (rev (dropWhile ascii_space s))
      = dropWhile ascii_space (rev (dropWhile ascii_space s))"
    using assms by (intro dropWhile_cong) (auto simp: is_ascii_set is_space_ascii)
  show ?thesis by (simp add: py_strip_def 1 2)
qed

lemma set_py_strip: "set (py_strip lib s) \<subseteq> set s"
  unfolding py_strip_def by (auto dest!: set_dropWhileD)

lemma is_ascii_strip: "is_ascii s \<Longrightarrow> is_ascii (py_strip lib s)"
  using set_py_strip [of lib s] by (auto simp: is_ascii_set)

lemma normalize_name_ascii:
  assumes "is_ascii n"
  shows "normalize_name lib n =
     py_replace space_char underscore_char (map to_lower (py_strip lib n))"
  by (simp add: normalize_name_def py_lower_ascii [OF is_ascii_strip [OF assms]])

lemma is_ascii_normalize: "is_ascii n \<Longrightarrow> is_ascii (normalize_name lib n)"
  using set_py_strip [of lib n]
  by (auto simp: normalize_name_ascii is_ascii_set py_replace_def underscore_char_def
      to_lower_ascii)

text \<open>On ASCII text the library has no say.\<close>

lemma normalize_name_any_lib:
  "is_ascii n \<Longrightarrow> normalize_name lib n = normalize_name lib' n"
  by (simp add: normalize_name_ascii py_strip_ascii)

lemma title_from_ascii_Cons:
  "c < 128 \<Longrightarrow> title_from lib prev pre (c # cs) =
     (if prev then to_lower c else to_upper c)
       # title_from lib (ascii_upper c \<or> ascii_lower c) (pre @ [c]) cs"
  by (simp add: lower_cp_ascii title_cp_ascii is_cased_ascii)

lemma title_from_any_lib:
  "is_ascii s \<Longrightarrow> title_from lib prev pre s = title_from lib' prev pre' s"
proof (induction s arbitrary: prev pre pre')
  case Nil
  then show ?case by simp
next
  case (Cons c cs)
  then have c: "c < 128" and cs: "is_ascii cs" by (simp_all add: is_ascii_Cons)
  show ?case
    unfolding title_from_ascii_Cons [OF c]
    using Cons.IH [OF cs] by simp
qed

lemma py_title_any_lib: "is_ascii s \<Longrightarrow> py_title lib s = py_title lib' s"
  unfolding py_title_def by (rule title_from_any_lib)

subsection \<open>Stripping and column names\<close>

lemma hd_dropWhile_not: "dropWhile P xs \<noteq> [] \<Longrightarrow> \<not> P (hd (dropWhile P xs))"
  by (simp add: hd_dropWhile)

lemma py_strip_hd: "py_strip lib s \<noteq> [] \<Longrightarrow> \<not> is_space lib (hd (py_strip lib s))"
proof -
  assume ne: "py_strip lib s \<noteq> []"
  define u where "u = dropWhile (is_space lib) s"
  define v where "v = dropWhile (is_space lib) (rev u)"
  have sv: "py_strip lib s = rev v" by (simp add: py_strip_def u_def v_def)
  with ne have vne: "v \<noteq> []" by simp
  then have une: "u \<noteq> []" by (auto simp: v_def)
  have "\<not> is_space lib (hd u)" using une unfolding u_def by (rule hd_dropWhile_not)
  moreover have "hd (rev v) = hd u"
  proof -
    obtain w where "rev u = w @ v" unfolding v_def
      by (metis takeWhile_dropWhile_id)
    then have "u = rev v @ rev w" by (metis rev_append rev_rev_ident)
    with vne show ?thesis by simp
  qed
  ultimately show ?thesis by (simp add: sv)
qed

lemma py_strip_last: "py_strip lib s \<noteq> [] \<Longrightarrow> \<not> is_space lib (last (py_strip lib s))"
proof -
  assume ne: "py_strip lib s \<noteq> []"
  define v where "v = dropWhile (is_space lib) (rev (dropWhile (is_space lib) s))"
  have sv: "py_strip lib s = rev v" by (simp add: py_strip_def v_def)
  with ne have vne: "v \<noteq> []" by simp
  then have "\<not> is_space lib (hd v)" unfolding v_def by (rule hd_dropWhile_not)
  then show ?thesis using vne by (simp add: sv last_rev)
qed

lemma py_strip_split:
  "s = takeWhile (is_space lib) s @ py_strip lib s
         @ rev (takeWhile (is_space lib) (rev (dropWhile (is_space lib) s)))"
proof -
  let ?u = "dropWhile (is_space lib) s"
  have "rev ?u = takeWhile (is_space lib) (rev ?u) @ dropWhile (is_space lib) (rev ?u)"
    by simp
  then have "?u = rev (dropWhile (is_space lib) (rev ?u)) @ rev (takeWhile (is_space lib) (rev ?u))"
    by (metis rev_append rev_rev_ident)
  then have "?u = py_strip lib s @ rev (takeWhile (is_space lib) (rev ?u))"
    by (simp add: py_strip_def)
  moreover have "s = takeWhile (is_space lib) s @ ?u" by simp
  ultimately show ?thesis by metis
qed

lemma py_strip_around:
  "\<exists>a b. s = a @ py_strip lib s @ b \<and> list_all (is_space lib) a \<and> list_all (is_space lib) b"
proof -
  let ?a = "takeWhile (is_space lib) s"
  let ?b = "rev (takeWhile (is_space lib) (rev (dropWhile (is_space lib) s)))"
  have "list_all (is_space lib) ?a"
    by (auto simp: list_all_iff dest: set_takeWhileD)
  moreover have "list_all (is_space lib) ?b"
    by (auto simp: list_all_iff dest: set_takeWhileD)
  ultimately show ?thesis using py_strip_split [of s lib] by blast
qed

lemma dropWhile_id: "xs = [] \<or> \<not> P (hd xs) \<Longrightarrow> dropWhile P xs = xs"
  by (cases xs) auto

lemma py_strip_id:
  assumes "s = [] \<or> (\<not> is_space lib (hd s) \<and> \<not> is_space lib (last s))"
  shows "py_strip lib s = s"
proof (cases "s = []")
  case True
  then show ?thesis by (simp add: py_strip_def)
next
  case False
  with assms have h: "\<not> is_space lib (hd s)" and l: "\<not> is_space lib (last s)" by auto
  have "dropWhile (is_space lib) s = s" using h by (simp add: dropWhile_id)
  moreover have "dropWhile (is_space lib) (rev s) = rev s"
    using l False by (simp add: dropWhile_id hd_rev)
  ultimately show ?thesis by (simp add: py_strip_def)
qed

lemma normalize_name_no_space: "space_char \<notin> set (normalize_name lib n)"
  by (auto simp: normalize_name_def py_replace_def space_char_def underscore_char_def)

lemma normalize_name_no_upper:
  assumes "is_ascii n" and "c \<in> set (normalize_name lib n)"
  shows "\<not> ascii_upper c"
proof -
  from assms have "c = underscore_char \<or> (\<exists>x. c = to_lower x)"
    by (auto simp: normalize_name_ascii py_replace_def split: if_splits)
  moreover have "\<not> ascii_upper underscore_char"
    by (simp add: ascii_upper_def underscore_char_def)
  ultimately show ?thesis using to_lower_not_upper by auto
qed

lemma normalize_name_ends:
  assumes "is_ascii n" and "normalize_name lib n \<noteq> []"
  shows "\<not> is_space lib (hd (normalize_name lib n))"
    and "\<not> is_space lib (last (normalize_name lib n))"
proof -
  let ?g = "\<lambda>c. if c = space_char then underscore_char else c"
  let ?s = "py_strip lib n"
  have m: "normalize_name lib n = map ?g (map to_lower ?s)"
    by (simp add: normalize_name_ascii [OF assms(1)] py_replace_def)
  have ne: "?s \<noteq> []" using assms(2) m by auto
  have a: "c < 128" if "c \<in> set ?s" for c
    using is_ascii_strip [OF assms(1), of lib] that by (simp add: is_ascii_set)
  have g: "\<not> is_space lib (?g (to_lower c))" if "c < 128" "\<not> is_space lib c" for c
  proof -
    have "\<not> ascii_space (to_lower c)"
      using that by (simp add: is_space_ascii ascii_space_to_lower)
    moreover have "to_lower c < 128" by (rule to_lower_ascii [OF that(1)])
    moreover have "\<not> is_space lib underscore_char"
      by (simp add: is_space_def underscore_char_def ascii_space_def)
    ultimately show ?thesis by (simp add: is_space_ascii)
  qed
  have "hd (normalize_name lib n) = ?g (to_lower (hd ?s))"
    using ne by (simp add: m hd_map)
  then show "\<not> is_space lib (hd (normalize_name lib n))"
    using g [OF a py_strip_hd [OF ne]] ne by simp
  have "last (normalize_name lib n) = ?g (to_lower (last ?s))"
    using ne by (simp add: m last_map)
  then show "\<not> is_space lib (last (normalize_name lib n))"
    using g [OF a py_strip_last [OF ne]] ne by simp
qed

lemma normalize_name_idem:
  assumes "is_ascii n"
  shows "normalize_name lib (normalize_name lib n) = normalize_name lib n"
proof -
  let ?m = "normalize_name lib n"
  have am: "is_ascii ?m" by (rule is_ascii_normalize [OF assms])
  have "py_strip lib ?m = ?m"
    using normalize_name_ends [OF assms, of lib] by (intro py_strip_id) blast
  moreover have "map to_lower ?m = ?m"
    using normalize_name_no_upper [OF assms, of _ lib]
    by (intro map_idI) (simp add: to_lower_def)
  moreover have "py_replace space_char underscore_char ?m = ?m"
    unfolding py_replace_def using normalize_name_no_space [of lib n]
    by (intro map_idI) auto
  ultimately show ?thesis by (simp add: normalize_name_ascii [OF am])
qed

lemma customer_name_ascii: "is_ascii (ascii '' Customer Name '')"
  by code_simp

lemma customer_name:
  "normalize_name lib (ascii '' Customer Name '') = ascii ''customer_name''"
proof -
  have "normalize_name sample_lib (ascii '' Customer Name '') = ascii ''customer_name''"
    by code_simp
  then show ?thesis
    using normalize_name_any_lib [OF customer_name_ascii, of lib sample_lib] by simp
qed

lemma role_names_ascii: "is_ascii amount_col" "is_ascii status_col" "is_ascii date_col"
  by code_simp+

lemma role_names_differ [simp]:
  "amount_col \<noteq> status_col" "status_col \<noteq> amount_col"
  "amount_col \<noteq> date_col" "date_col \<noteq> amount_col"
  "status_col \<noteq> date_col" "date_col \<noteq> status_col"
  by code_simp+

subsection \<open>Column positions\<close>

lemma col_index_less: "n \<in> set ns \<Longrightarrow> col_index n ns < length ns"
  unfolding col_index_def by (induction ns) auto

lemma col_index_nth: "n \<in> set ns \<Longrightarrow> ns ! col_index n ns = n"
  unfolding col_index_def by (induction ns) auto

lemma col_index_other: "n \<in> set ns \<Longrightarrow> ns ! j \<noteq> n \<Longrightarrow> j \<noteq> col_index n ns"
  using col_index_nth by blast

lemma col_index_distinct:
  "n \<in> set ns \<Longrightarrow> m \<in> set ns \<Longrightarrow> n \<noteq> m \<Longrightarrow> col_index n ns \<noteq> col_index m ns"
  using col_index_nth by metis

subsection \<open>What each stage returns\<close>

lemma fix_amount_absent: "amount_col \<notin> set (names t) \<Longrightarrow> fix_amount lib t = Inr (t, [])"
  by (simp add: fix_amount_def)

lemma fix_status_absent: "status_col \<notin> set (names t) \<Longrightarrow> fix_status lib t = Inr (t, [])"
  by (simp add: fix_status_def)

lemma fix_date_absent: "date_col \<notin> set (names t) \<Longrightarrow> fix_date lib t = Inr (t, [])"
  by (simp add: fix_date_def)

lemma fix_amount_present:
  assumes "fix_amount lib t = Inr (t', l)" and "amount_col \<in> set (names t)"
  shows "single_column amount_col t"
    and "t' = t\<lparr>dtypes := (dtypes t)[col_index amount_col (names t) := NumericD],
                rows := map (\<lambda>r. r[col_index amount_col (names t) :=
                                   amount_cell lib (r ! col_index amount_col (names t))]) (rows t)\<rparr>"
    and "l = [msg_amount]"
  using assms by (auto simp: fix_amount_def Let_def split: if_splits)

lemma fix_status_present:
  assumes "fix_status lib t = Inr (t', l)" and "status_col \<in> set (names t)"
  shows "single_column status_col t"
    and "str_accessor_ok (dtypes t ! col_index status_col (names t))
           (column (col_index status_col (names t)) (rows t))"
    and "t' = t\<lparr>dtypes := (dtypes t)[col_index status_col (names t) :=
                            title_dtype (column (col_index status_col (names t)) (rows t))],
                rows := map (\<lambda>r. r[col_index status_col (names t) :=
                                   str_title lib (r ! col_index status_col (names t))]) (rows t)\<rparr>"
    and "l = [msg_status]"
  using assms by (auto simp: fix_status_def Let_def split: if_splits)

lemma names_parse_date_column: "names (parse_date_column lib t) = names t"
  by (simp add: parse_date_column_def Let_def)

lemma fix_date_present:
  assumes "fix_date lib t = Inr (t', l)" and "date_col \<in> set (names t)"
  shows "single_column date_col t"
    and "t' = t\<lparr>dtypes := (dtypes t)[col_index date_col (names t) := DatetimeD],
                rows := dropna (col_index date_col (names t))
                  (map (\<lambda>r. r[col_index date_col (names t) :=
                              to_datetime lib (column (col_index date_col (names t)) (rows t))
                                (r ! col_index date_col (names t))]) (rows t))\<rparr>"
    and "l = [msg_date]"
  using assms by (auto simp: fix_date_def parse_date_column_def Let_def split: if_splits)

lemma fix_amount_shape:
  assumes "fix_amount lib t = Inr (t', l)"
  shows "names t' = names t" and "length (rows t') = length (rows t)"
    and "l = (if amount_col \<in> set (names t) then [msg_amount] else [])"
  using assms by (auto simp: fix_amount_def Let_def split: if_splits)

lemma fix_status_shape:
  assumes "fix_status lib t = Inr (t', l)"
  shows "names t' = names t" and "length (rows t') = length (rows t)"
    and "l = (if status_col \<in> set (names t) then [msg_status] else [])"
  using assms by (auto simp: fix_status_def Let_def split: if_splits)

lemma fix_date_shape:
  assumes "fix_date lib t = Inr (t', l)"
  shows "names t' = names t" and "length (rows t') \<le> length (rows t)"
    and "l = (if date_col \<in> set (names t) then [msg_date] else [])"
  using assms
  by (auto simp: fix_date_def parse_date_column_def dropna_def Let_def split: if_splits
           intro: le_trans [OF length_filter_le])

lemma clean_data_stages:
  assumes "clean_data lib df = Inr (out, logs)"
  obtains t3 l3 t4 l4 l5 where
    "fix_amount lib (remove_duplicates (standardize_headers lib df)) = Inr (t3, l3)"
    "fix_status lib t3 = Inr (t4, l4)"
    "fix_date lib t4 = Inr (out, l5)"
    "logs = [msg_headers,
            msg_removed (length (rows df) - length (drop_duplicates (rows df)))] @ l3 @ l4 @ l5"
  using assms
  by (auto simp: clean_data_def Let_def standardize_headers_def remove_duplicates_def
           split: sum.splits prod.splits)

lemma names_after_dedup:
  "names (remove_duplicates (standardize_headers lib df)) = map (normalize_name lib) (names df)"
  by (simp add: remove_duplicates_def standardize_headers_def)

lemma rows_after_dedup:
  "rows (remove_duplicates (standardize_headers lib df)) = drop_duplicates (rows df)"
  by (simp add: remove_duplicates_def standardize_headers_def)

lemma clean_data_names:
  assumes "clean_data lib df = Inr (out, logs)"
  shows "names out = map (normalize_name lib) (names df)"
proof -
  from assms obtain t3 l3 t4 l4 l5 where
    a: "fix_amount lib (remove_duplicates (standardize_headers lib df)) = Inr (t3, l3)"
    and s: "fix_status lib t3 = Inr (t4, l4)" and d: "fix_date lib t4 = Inr (out, l5)"
    by (rule clean_data_stages)
  show ?thesis
    using fix_amount_shape(1) [OF a] fix_status_shape(1) [OF s] fix_date_shape(1) [OF d]
    by (simp add: names_after_dedup)
qed

subsection \<open>Runs on the sample tables\<close>

lemma sales_run: "clean_data sample_lib sales_table = Inr (sales_clean, sales_logs)"
  by code_simp

lemma sales_wf: "wf_table sales_table"
  by (simp add: wf_table_def sales_table_def)

lemma names_sales_clean:
  "names sales_clean = [ascii ''customer_name'', date_col, amount_col, status_col]"
  by (simp add: sales_clean_def amount_col_def status_col_def date_col_def)

lemma names_paid_table: "names paid_table = [ascii ''Status'']"
  by (simp add: paid_table_def)

lemma paid_table_no_roles:
  "amount_col \<notin> set (names paid_table)" "date_col \<notin> set (names paid_table)"
  by code_simp+

lemma clean_data_logs:
  assumes "clean_data lib df = Inr (out, logs)"
  shows "logs = [msg_headers, msg_removed (length (rows df) - length (drop_duplicates (rows df)))]
            @ (if amount_col \<in> set (names out) then [msg_amount] else [])
            @ (if status_col \<in> set (names out) then [msg_status] else [])
            @ (if date_col \<in> set (names out) then [msg_date] else [])"
proof -
  from assms obtain t3 l3 t4 l4 l5 where
    a: "fix_amount lib (remove_duplicates (standardize_headers lib df)) = Inr (t3, l3)"
    and s: "fix_status lib t3 = Inr (t4, l4)" and d: "fix_date lib t4 = Inr (out, l5)"
    and l: "logs = [msg_headers,
            msg_removed (length (rows df) - length (drop_duplicates (rows df)))] @ l3 @ l4 @ l5"
    by (rule clean_data_stages)
  have n4: "names t4 = names out" using fix_date_shape(1) [OF d] by simp
  have n3: "names t3 = names out" using fix_status_shape(1) [OF s] n4 by simp
  have n2: "names (remove_duplicates (standardize_headers lib df)) = names out"
    using fix_amount_shape(1) [OF a] n3 by simp
  have "l3 = (if amount_col \<in> set (names out) then [msg_amount] else [])"
    using fix_amount_shape(3) [OF a] n2 by simp
  moreover have "l4 = (if status_col \<in> set (names out) then [msg_status] else [])"
    using fix_status_shape(3) [OF s] n3 by simp
  moreover have "l5 = (if date_col \<in> set (names out) then [msg_date] else [])"
    using fix_date_shape(3) [OF d] n4 by simp
  ultimately show ?thesis using l by simp
qed

subsection \<open>The log\<close>

text \<open>
  C9. A stage whose column is absent from the normalized header returns the table as it
  is and appends nothing; the log of a run is the header entry, the duplicate entry,
  and one entry for each of the amount, status and date stages whose column is
  present, in that order, so it has between two and five entries.
\<close>

theorem log_structure:
  assumes "clean_data lib df = Inr (out, logs)"
  shows "(amount_col \<notin> set (names t) \<longrightarrow> fix_amount lib t = Inr (t, []))
       \<and> (status_col \<notin> set (names t) \<longrightarrow> fix_status lib t = Inr (t, []))
       \<and> (date_col \<notin> set (names t) \<longrightarrow> fix_date lib t = Inr (t, []))
       \<and> names out = map (normalize_name lib) (names df)
       \<and> logs = [msg_headers,
                  msg_removed (length (rows df) - length (drop_duplicates (rows df)))]
            @ (if amount_col \<in> set (names out) then [msg_amount] else [])
            @ (if status_col \<in> set (names out) then [msg_status] else [])
            @ (if date_col \<in> set (names out) then [msg_date] else [])
       \<and> 2 \<le> length logs \<and> length logs \<le> 5"
proof -
  note l = clean_data_logs [OF assms]
  have len: "2 \<le> length logs \<and> length logs \<le> 5"
    by (subst l, subst l) simp
  have skip: "(amount_col \<notin> set (names t) \<longrightarrow> fix_amount lib t = Inr (t, []))
       \<and> (status_col \<notin> set (names t) \<longrightarrow> fix_status lib t = Inr (t, []))
       \<and> (date_col \<notin> set (names t) \<longrightarrow> fix_date lib t = Inr (t, []))"
    by (simp add: fix_amount_absent fix_status_absent fix_date_absent)
  from skip clean_data_names [OF assms] l len show ?thesis by blast
qed

theorem log_structure_witness:
  "clean_data sample_lib sales_table = Inr (sales_clean, sales_logs)
   \<and> amount_col \<notin> set (names paid_table)
   \<and> fix_amount sample_lib paid_table = Inr (paid_table, [])
   \<and> date_col \<notin> set (names paid_table)
   \<and> fix_date sample_lib paid_table = Inr (paid_table, [])
   \<and> sales_logs = [msg_headers, msg_removed 1, msg_amount, msg_status, msg_date]
   \<and> 2 \<le> length sales_logs \<and> length sales_logs \<le> 5"
  using log_structure [OF sales_run, where t = paid_table] sales_run
  by (simp add: paid_table_no_roles sales_logs_def)

subsection \<open>Stage A\<close>

lemma cafe_name_run: "normalize_name sample_lib cafe_name = ascii ''caf'' @ [233] @ ascii ''_total''"
  by code_simp

text \<open>
  C8. The header stage leaves the rows as they are and renames every column: the name
  is stripped of leading and trailing whitespace, lower-cased, and its spaces are
  replaced by underscores. What is stripped is whitespace and what is left neither
  starts nor ends with whitespace; no new name holds a space; an ASCII name becomes an
  ASCII name without capital letters that neither starts nor ends with whitespace. The
  names of the pipeline's result are these names. The column \<^verbatim>\<open>" Customer Name "\<close>
  becomes \<^verbatim>\<open>customer_name\<close>.
\<close>

theorem header_normalization:
  "rows (standardize_headers lib t) = rows t
   \<and> dtypes (standardize_headers lib t) = dtypes t
   \<and> names (standardize_headers lib t) =
        map (\<lambda>n. py_replace space_char underscore_char (py_lower lib (py_strip lib n))) (names t)
   \<and> (\<forall>n \<in> set (names t).
         (\<exists>a b. n = a @ py_strip lib n @ b
                \<and> list_all (is_space lib) a \<and> list_all (is_space lib) b)
         \<and> (py_strip lib n \<noteq> [] \<longrightarrow>
               \<not> is_space lib (hd (py_strip lib n)) \<and> \<not> is_space lib (last (py_strip lib n))))
   \<and> (\<forall>n \<in> set (names (standardize_headers lib t)). space_char \<notin> set n)
   \<and> (\<forall>n \<in> set (names t). is_ascii n \<longrightarrow>
         is_ascii (normalize_name lib n)
         \<and> normalize_name lib n
             = py_replace space_char underscore_char (map to_lower (py_strip lib n))
         \<and> list_all (\<lambda>c. \<not> ascii_upper c) (normalize_name lib n)
         \<and> (normalize_name lib n \<noteq> [] \<longrightarrow>
               \<not> is_space lib (hd (normalize_name lib n))
               \<and> \<not> is_space lib (last (normalize_name lib n))))
   \<and> normalize_name lib (ascii '' Customer Name '') = ascii ''customer_name''
   \<and> (clean_data lib t = Inr (out, logs) \<longrightarrow>
         names out = map (\<lambda>n. py_replace space_char underscore_char
                                 (py_lower lib (py_strip lib n))) (names t))"
proof -
  have nn: "normalize_name lib
      = (\<lambda>n. py_replace space_char underscore_char (py_lower lib (py_strip lib n)))"
    by (rule ext) (simp add: normalize_name_def)
  have strip: "\<forall>n \<in> set (names t).
         (\<exists>a b. n = a @ py_strip lib n @ b
                \<and> list_all (is_space lib) a \<and> list_all (is_space lib) b)
         \<and> (py_strip lib n \<noteq> [] \<longrightarrow>
               \<not> is_space lib (hd (py_strip lib n)) \<and> \<not> is_space lib (last (py_strip lib n)))"
    using py_strip_around py_strip_hd py_strip_last by blast
  have nospace: "\<forall>n \<in> set (names (standardize_headers lib t)). space_char \<notin> set n"
    using normalize_name_no_space by (auto simp: standardize_headers_def)
  have asc: "\<forall>n \<in> set (names t). is_ascii n \<longrightarrow>
         is_ascii (normalize_name lib n)
         \<and> normalize_name lib n
             = py_replace space_char underscore_char (map to_lower (py_strip lib n))
         \<and> list_all (\<lambda>c. \<not> ascii_upper c) (normalize_name lib n)
         \<and> (normalize_name lib n \<noteq> [] \<longrightarrow>
               \<not> is_space lib (hd (normalize_name lib n))
               \<and> \<not> is_space lib (last (normalize_name lib n)))"
    using is_ascii_normalize normalize_name_ascii normalize_name_no_upper normalize_name_ends
    by (simp add: list_all_iff)
  have pipe: "clean_data lib t = Inr (out, logs) \<longrightarrow>
         names out = map (\<lambda>n. py_replace space_char underscore_char
                                 (py_lower lib (py_strip lib n))) (names t)"
    using clean_data_names [of lib t out logs] by (simp add: nn)
  have stage: "rows (standardize_headers lib t) = rows t
   \<and> dtypes (standardize_headers lib t) = dtypes t
   \<and> names (standardize_headers lib t) =
        map (\<lambda>n. py_replace space_char underscore_char (py_lower lib (py_strip lib n))) (names t)"
    by (simp add: standardize_headers_def nn)
  from stage strip nospace asc customer_name [of lib] pipe show ?thesis by blast
qed

theorem header_normalization_witness:
  "clean_data sample_lib sales_table = Inr (sales_clean, sales_logs)
   \<and> names sales_clean =
       map (\<lambda>n. py_replace space_char underscore_char
                  (py_lower sample_lib (py_strip sample_lib n))) (names sales_table)
   \<and> names sales_clean = [ascii ''customer_name'', date_col, amount_col, status_col]
   \<and> rows (standardize_headers sample_lib sales_table) = rows sales_table
   \<and> names (standardize_headers sample_lib (sales_table\<lparr>names := [cafe_name]\<rparr>))
       = [ascii ''caf'' @ [233] @ ascii ''_total'']"
proof -
  note th = header_normalization [of sample_lib sales_table sales_clean sales_logs]
  have "names (standardize_headers sample_lib (sales_table\<lparr>names := [cafe_name]\<rparr>))
       = [ascii ''caf'' @ [233] @ ascii ''_total'']"
    using header_normalization [of sample_lib "sales_table\<lparr>names := [cafe_name]\<rparr>"]
      cafe_name_run
    by (simp add: normalize_name_def)
  with th sales_run names_sales_clean show ?thesis by blast
qed

subsection \<open>Stage B\<close>




lemma set_drop_from: "set (drop_from seen rs) = set rs - set seen"
  by (induction rs arbitrary: seen) auto

lemma set_drop_duplicates: "set (drop_duplicates rs) = set rs"
  by (simp add: drop_duplicates_def set_drop_from)

lemma distinct_drop_from: "distinct (drop_from seen rs)"
  by (induction rs arbitrary: seen) (auto simp: set_drop_from)

lemma distinct_drop_duplicates: "distinct (drop_duplicates rs)"
  by (simp add: drop_duplicates_def distinct_drop_from)




lemma drop_from_distinct: "distinct rs \<Longrightarrow> set rs \<inter> set seen = {} \<Longrightarrow> drop_from seen rs = rs"
  by (induction rs arbitrary: seen) auto

lemma drop_duplicates_distinct: "distinct rs \<Longrightarrow> drop_duplicates rs = rs"
  by (simp add: drop_duplicates_def drop_from_distinct)

lemma drop_duplicates_idem: "drop_duplicates (drop_duplicates rs) = drop_duplicates rs"
  by (simp add: drop_duplicates_distinct distinct_drop_duplicates)








subsection \<open>Rows through the stages\<close>

lemma update_other:
  "n \<in> set ns \<Longrightarrow> ns ! j \<noteq> n \<Longrightarrow> r[col_index n ns := x] ! j = r ! j"
  using col_index_nth [of n ns] by (metis nth_list_update_neq)

lemma fix_amount_rows:
  assumes "fix_amount lib t = Inr (t', l)" and "r' \<in> set (rows t')"
  shows "\<exists>r \<in> set (rows t). length r' = length r
           \<and> (\<forall>j. names t ! j \<noteq> amount_col \<longrightarrow> r' ! j = r ! j)"
proof (cases "amount_col \<in> set (names t)")
  case True
  note p = fix_amount_present [OF assms(1) True]
  from assms(2) p(2) obtain r where r: "r \<in> set (rows t)"
    and r': "r' = r[col_index amount_col (names t) :=
                     amount_cell lib (r ! col_index amount_col (names t))]"
    by auto
  have "\<forall>j. names t ! j \<noteq> amount_col \<longrightarrow> r' ! j = r ! j"
    unfolding r' by (intro allI impI) (rule update_other [OF True])
  with r r' show ?thesis by auto
next
  case False
  with assms show ?thesis by (auto simp: fix_amount_def)
qed

lemma fix_status_rows:
  assumes "fix_status lib t = Inr (t', l)" and "r' \<in> set (rows t')"
  shows "\<exists>r \<in> set (rows t). length r' = length r
           \<and> (\<forall>j. names t ! j \<noteq> status_col \<longrightarrow> r' ! j = r ! j)"
proof (cases "status_col \<in> set (names t)")
  case True
  note p = fix_status_present [OF assms(1) True]
  from assms(2) p(3) obtain r where r: "r \<in> set (rows t)"
    and r': "r' = r[col_index status_col (names t) :=
                     str_title lib (r ! col_index status_col (names t))]"
    by auto
  have "\<forall>j. names t ! j \<noteq> status_col \<longrightarrow> r' ! j = r ! j"
    unfolding r' by (intro allI impI) (rule update_other [OF True])
  with r r' show ?thesis by auto
next
  case False
  with assms show ?thesis by (auto simp: fix_status_def)
qed

lemma fix_date_rows:
  assumes "fix_date lib t = Inr (t', l)" and "r' \<in> set (rows t')"
  shows "\<exists>r \<in> set (rows t). length r' = length r
           \<and> (\<forall>j. names t ! j \<noteq> date_col \<longrightarrow> r' ! j = r ! j)"
proof (cases "date_col \<in> set (names t)")
  case True
  note p = fix_date_present [OF assms(1) True]
  from assms(2) p(2) obtain r where r: "r \<in> set (rows t)"
    and r': "r' = r[col_index date_col (names t) :=
                     to_datetime lib (column (col_index date_col (names t)) (rows t))
                       (r ! col_index date_col (names t))]"
    by (auto simp: dropna_def)
  have "\<forall>j. names t ! j \<noteq> date_col \<longrightarrow> r' ! j = r ! j"
    unfolding r' by (intro allI impI) (rule update_other [OF True])
  with r r' show ?thesis by auto
next
  case False
  with assms show ?thesis by (auto simp: fix_date_def)
qed

lemma clean_data_rows:
  assumes "clean_data lib df = Inr (out, logs)" and "r' \<in> set (rows out)"
  shows "\<exists>r \<in> set (rows df). length r' = length r
           \<and> (\<forall>j. names out ! j \<notin> {amount_col, status_col, date_col} \<longrightarrow> r' ! j = r ! j)"
proof -
  from assms(1) obtain t3 l3 t4 l4 l5 where
    a: "fix_amount lib (remove_duplicates (standardize_headers lib df)) = Inr (t3, l3)"
    and s: "fix_status lib t3 = Inr (t4, l4)" and d: "fix_date lib t4 = Inr (out, l5)"
    by (rule clean_data_stages)
  have n4: "names t4 = names out" using fix_date_shape(1) [OF d] by simp
  have n3: "names t3 = names out" using fix_status_shape(1) [OF s] n4 by simp
  have n2: "names (remove_duplicates (standardize_headers lib df)) = names out"
    using fix_amount_shape(1) [OF a] n3 by simp
  from fix_date_rows [OF d assms(2)] obtain r4 where r4: "r4 \<in> set (rows t4)"
    "length r' = length r4" "\<forall>j. names out ! j \<noteq> date_col \<longrightarrow> r' ! j = r4 ! j"
    unfolding n4 by blast
  from fix_status_rows [OF s r4(1)] obtain r3 where r3: "r3 \<in> set (rows t3)"
    "length r4 = length r3" "\<forall>j. names out ! j \<noteq> status_col \<longrightarrow> r4 ! j = r3 ! j"
    unfolding n3 by blast
  from fix_amount_rows [OF a r3(1)] obtain r where r: "r \<in> set (drop_duplicates (rows df))"
    "length r3 = length r" "\<forall>j. names out ! j \<noteq> amount_col \<longrightarrow> r3 ! j = r ! j"
    unfolding n2 rows_after_dedup by blast
  have "r \<in> set (rows df)" using r(1) by (simp add: set_drop_duplicates)
  moreover have "length r' = length r" using r4(2) r3(2) r(2) by simp
  moreover have "\<forall>j. names out ! j \<notin> {amount_col, status_col, date_col} \<longrightarrow> r' ! j = r ! j"
    using r4(3) r3(3) r(3) by simp
  ultimately show ?thesis by blast
qed



subsection \<open>Columns and row count\<close>

text \<open>
  C10. The result has the columns of the input, in the same order, under their
  normalized names; every row of the result comes from a row of the input with the
  same number of cells and with equal cells in every column other than amount, status
  and date.
\<close>

theorem column_preservation:
  assumes "clean_data lib df = Inr (out, logs)"
  shows "length (names out) = length (names df)
       \<and> names out = map (normalize_name lib) (names df)
       \<and> (\<forall>r' \<in> set (rows out). \<exists>r \<in> set (rows df). length r' = length r
            \<and> (\<forall>j. names out ! j \<notin> {amount_col, status_col, date_col} \<longrightarrow> r' ! j = r ! j))"
  using clean_data_names [OF assms] clean_data_rows [OF assms] by simp

theorem column_preservation_witness:
  "clean_data sample_lib sales_table = Inr (sales_clean, sales_logs)
   \<and> length (names sales_clean) = length (names sales_table)
   \<and> names sales_clean = map (normalize_name sample_lib) (names sales_table)
   \<and> names sales_clean = [ascii ''customer_name'', date_col, amount_col, status_col]"
  using column_preservation [OF sales_run] sales_run names_sales_clean by simp




subsection \<open>What the stages establish and keep\<close>

lemma wf_row_length: "wf_table t \<Longrightarrow> r \<in> set (rows t) \<Longrightarrow> length r = length (names t)"
  by (simp add: wf_table_def list_all_iff)

lemma wf_dtypes_length: "wf_table t \<Longrightarrow> length (dtypes t) = length (names t)"
  by (simp add: wf_table_def)

lemma wf_tableI:
  assumes "wf_table t" and "names t' = names t" and "length (dtypes t') = length (dtypes t)"
    and "\<And>r'. r' \<in> set (rows t') \<Longrightarrow> \<exists>r \<in> set (rows t). length r' = length r"
  shows "wf_table t'"
  using assms unfolding wf_table_def list_all_iff by metis

lemma fix_amount_dtypes:
  assumes "fix_amount lib t = Inr (t', l)"
  shows "length (dtypes t') = length (dtypes t)"
    and "names t ! j \<noteq> amount_col \<Longrightarrow> dtypes t' ! j = dtypes t ! j"
proof -
  show "length (dtypes t') = length (dtypes t)"
    using assms by (auto simp: fix_amount_def Let_def split: if_splits)
  assume j: "names t ! j \<noteq> amount_col"
  show "dtypes t' ! j = dtypes t ! j"
  proof (cases "amount_col \<in> set (names t)")
    case True
    show ?thesis
      by (subst fix_amount_present(2) [OF assms True]) (simp add: update_other [OF True j])
  next
    case False
    with assms show ?thesis by (simp add: fix_amount_def)
  qed
qed

lemma fix_status_dtypes:
  assumes "fix_status lib t = Inr (t', l)"
  shows "length (dtypes t') = length (dtypes t)"
    and "names t ! j \<noteq> status_col \<Longrightarrow> dtypes t' ! j = dtypes t ! j"
proof -
  show "length (dtypes t') = length (dtypes t)"
    using assms by (auto simp: fix_status_def Let_def split: if_splits)
  assume j: "names t ! j \<noteq> status_col"
  show "dtypes t' ! j = dtypes t ! j"
  proof (cases "status_col \<in> set (names t)")
    case True
    show ?thesis
      by (subst fix_status_present(3) [OF assms True]) (simp add: update_other [OF True j])
  next
    case False
    with assms show ?thesis by (simp add: fix_status_def)
  qed
qed

lemma fix_date_dtypes:
  assumes "fix_date lib t = Inr (t', l)"
  shows "length (dtypes t') = length (dtypes t)"
    and "names t ! j \<noteq> date_col \<Longrightarrow> dtypes t' ! j = dtypes t ! j"
proof -
  show "length (dtypes t') = length (dtypes t)"
    using assms by (auto simp: fix_date_def parse_date_column_def Let_def split: if_splits)
  assume j: "names t ! j \<noteq> date_col"
  show "dtypes t' ! j = dtypes t ! j"
  proof (cases "date_col \<in> set (names t)")
    case True
    show ?thesis
      by (subst fix_date_present(2) [OF assms True]) (simp add: update_other [OF True j])
  next
    case False
    with assms show ?thesis by (simp add: fix_date_def)
  qed
qed

lemma fix_amount_wf:
  assumes "fix_amount lib t = Inr (t', l)" and "wf_table t"
  shows "wf_table t'"
proof (rule wf_tableI [OF assms(2)])
  show "names t' = names t" by (rule fix_amount_shape(1) [OF assms(1)])
  show "length (dtypes t') = length (dtypes t)" by (rule fix_amount_dtypes(1) [OF assms(1)])
  show "\<exists>r \<in> set (rows t). length r' = length r" if "r' \<in> set (rows t')" for r'
    using fix_amount_rows [OF assms(1) that] by blast
qed

lemma fix_status_wf:
  assumes "fix_status lib t = Inr (t', l)" and "wf_table t"
  shows "wf_table t'"
proof (rule wf_tableI [OF assms(2)])
  show "names t' = names t" by (rule fix_status_shape(1) [OF assms(1)])
  show "length (dtypes t') = length (dtypes t)" by (rule fix_status_dtypes(1) [OF assms(1)])
  show "\<exists>r \<in> set (rows t). length r' = length r" if "r' \<in> set (rows t')" for r'
    using fix_status_rows [OF assms(1) that] by blast
qed

lemma fix_date_wf:
  assumes "fix_date lib t = Inr (t', l)" and "wf_table t"
  shows "wf_table t'"
proof (rule wf_tableI [OF assms(2)])
  show "names t' = names t" by (rule fix_date_shape(1) [OF assms(1)])
  show "length (dtypes t') = length (dtypes t)" by (rule fix_date_dtypes(1) [OF assms(1)])
  show "\<exists>r \<in> set (rows t). length r' = length r" if "r' \<in> set (rows t')" for r'
    using fix_date_rows [OF assms(1) that] by blast
qed

lemma dedup_wf: "wf_table df \<Longrightarrow> wf_table (remove_duplicates (standardize_headers lib df))"
  by (simp add: wf_table_def list_all_iff remove_duplicates_def standardize_headers_def
      set_drop_duplicates)

lemma amount_cell_number: "\<exists>x. amount_cell lib c = Number x"
  by (cases "parse_num lib (remove_commas (astype_str lib c))")
     (simp_all add: amount_cell_def to_numeric_def)

lemma str_title_cases: "str_title lib c = Missing \<or> (\<exists>s. str_title lib c = Text (py_title lib s))"
  by (cases c) auto

lemma to_datetime_cases: "to_datetime lib col c = Missing \<or> (\<exists>d. to_datetime lib col c = Date d)"
  by (cases c) (auto split: option.splits)

lemma fix_amount_column:
  assumes "fix_amount lib t = Inr (t', l)" and "amount_col \<in> set (names t)" and "wf_table t"
  shows "dtypes t' ! col_index amount_col (names t) = NumericD"
    and "r' \<in> set (rows t') \<Longrightarrow> \<exists>x. r' ! col_index amount_col (names t) = Number x"
proof -
  let ?i = "col_index amount_col (names t)"
  note p = fix_amount_present [OF assms(1,2)]
  have i: "?i < length (names t)" by (rule col_index_less [OF assms(2)])
  show "dtypes t' ! ?i = NumericD"
    using i wf_dtypes_length [OF assms(3)] by (subst p(2)) simp
  assume "r' \<in> set (rows t')"
  with p(2) obtain r where r: "r \<in> set (rows t)" and r': "r' = r[?i := amount_cell lib (r ! ?i)]"
    by auto
  have "?i < length r" using i wf_row_length [OF assms(3) r] by simp
  then have "r' ! ?i = amount_cell lib (r ! ?i)" by (simp add: r')
  then show "\<exists>x. r' ! ?i = Number x" using amount_cell_number by simp
qed

lemma fix_status_column:
  assumes "fix_status lib t = Inr (t', l)" and "status_col \<in> set (names t)" and "wf_table t"
  shows "dtypes t' ! col_index status_col (names t)
           = title_dtype (column (col_index status_col (names t)) (rows t))"
    and "r' \<in> set (rows t') \<Longrightarrow> r' ! col_index status_col (names t) = Missing
           \<or> (\<exists>s. r' ! col_index status_col (names t) = Text (py_title lib s))"
proof -
  let ?i = "col_index status_col (names t)"
  note p = fix_status_present [OF assms(1,2)]
  have i: "?i < length (names t)" by (rule col_index_less [OF assms(2)])
  show "dtypes t' ! ?i = title_dtype (column ?i (rows t))"
    using i wf_dtypes_length [OF assms(3)] by (subst p(3)) simp
  assume "r' \<in> set (rows t')"
  with p(3) obtain r where r: "r \<in> set (rows t)" and r': "r' = r[?i := str_title lib (r ! ?i)]"
    by auto
  have "?i < length r" using i wf_row_length [OF assms(3) r] by simp
  then have "r' ! ?i = str_title lib (r ! ?i)" by (simp add: r')
  then show "r' ! ?i = Missing \<or> (\<exists>s. r' ! ?i = Text (py_title lib s))"
    using str_title_cases by simp
qed

lemma fix_date_column:
  assumes "fix_date lib t = Inr (t', l)" and "date_col \<in> set (names t)" and "wf_table t"
  shows "dtypes t' ! col_index date_col (names t) = DatetimeD"
    and "r' \<in> set (rows t') \<Longrightarrow> \<exists>d. r' ! col_index date_col (names t) = Date d"
proof -
  let ?i = "col_index date_col (names t)"
  let ?col = "column ?i (rows t)"
  note p = fix_date_present [OF assms(1,2)]
  have i: "?i < length (names t)" by (rule col_index_less [OF assms(2)])
  show "dtypes t' ! ?i = DatetimeD"
    using i wf_dtypes_length [OF assms(3)] by (subst p(2)) simp
  assume "r' \<in> set (rows t')"
  with p(2) obtain r where r: "r \<in> set (rows t)"
    and r': "r' = r[?i := to_datetime lib ?col (r ! ?i)]" and m: "r' ! ?i \<noteq> Missing"
    by (auto simp: dropna_def)
  have "?i < length r" using i wf_row_length [OF assms(3) r] by simp
  then have "r' ! ?i = to_datetime lib ?col (r ! ?i)" by (simp add: r')
  then show "\<exists>d. r' ! ?i = Date d"
    using to_datetime_cases [of lib ?col "r ! ?i"] m by auto
qed

lemma column_kept:
  assumes "\<And>r'. r' \<in> set (rows t') \<Longrightarrow>
             \<exists>r \<in> set (rows t). length r' = length r \<and> (\<forall>j. names t ! j \<noteq> n \<longrightarrow> r' ! j = r ! j)"
    and "m \<in> set (names t)" and "m \<noteq> n"
    and "\<And>r. r \<in> set (rows t) \<Longrightarrow> P (r ! col_index m (names t))"
    and "r' \<in> set (rows t')"
  shows "P (r' ! col_index m (names t))"
proof -
  from assms(1) [OF assms(5)] obtain r where r: "r \<in> set (rows t)"
    and e: "\<forall>j. names t ! j \<noteq> n \<longrightarrow> r' ! j = r ! j" by blast
  have "names t ! col_index m (names t) \<noteq> n"
    using col_index_nth [OF assms(2)] assms(3) by simp
  with e have "r' ! col_index m (names t) = r ! col_index m (names t)" by blast
  with assms(4) [OF r] show ?thesis by simp
qed

lemma clean_data_wf:
  assumes "wf_table df" and "clean_data lib df = Inr (out, logs)"
  shows "wf_table out"
proof -
  from assms(2) obtain t3 l3 t4 l4 l5 where
    a: "fix_amount lib (remove_duplicates (standardize_headers lib df)) = Inr (t3, l3)"
    and s: "fix_status lib t3 = Inr (t4, l4)" and d: "fix_date lib t4 = Inr (out, l5)"
    by (rule clean_data_stages)
  show ?thesis
    by (rule fix_date_wf [OF d fix_status_wf [OF s fix_amount_wf [OF a dedup_wf [OF assms(1)]]]])
qed

lemma clean_data_amount_column:
  assumes "wf_table df" and "clean_data lib df = Inr (out, logs)"
    and "amount_col \<in> set (names out)"
  shows "single_column amount_col out"
    and "dtypes out ! col_index amount_col (names out) = NumericD"
    and "r \<in> set (rows out) \<Longrightarrow> \<exists>x. r ! col_index amount_col (names out) = Number x"
proof -
  let ?t2 = "remove_duplicates (standardize_headers lib df)"
  let ?i = "col_index amount_col (names out)"
  from assms(2) obtain t3 l3 t4 l4 l5 where
    a: "fix_amount lib ?t2 = Inr (t3, l3)"
    and s: "fix_status lib t3 = Inr (t4, l4)" and d: "fix_date lib t4 = Inr (out, l5)"
    by (rule clean_data_stages)
  have n4: "names t4 = names out" using fix_date_shape(1) [OF d] by simp
  have n3: "names t3 = names out" using fix_status_shape(1) [OF s] n4 by simp
  have n2: "names ?t2 = names out" using fix_amount_shape(1) [OF a] n3 by simp
  have w2: "wf_table ?t2" by (rule dedup_wf [OF assms(1)])
  have m2: "amount_col \<in> set (names ?t2)" using assms(3) n2 by simp
  have ni: "names out ! ?i = amount_col" by (rule col_index_nth [OF assms(3)])
  show "single_column amount_col out"
    using fix_amount_present(1) [OF a m2] n2 by (simp add: single_column_def)
  have "dtypes t3 ! ?i = NumericD" using fix_amount_column(1) [OF a m2 w2] n2 by simp
  moreover have "dtypes t4 ! ?i = dtypes t3 ! ?i"
    by (rule fix_status_dtypes(2) [OF s]) (simp add: n3 ni)
  moreover have "dtypes out ! ?i = dtypes t4 ! ?i"
    by (rule fix_date_dtypes(2) [OF d]) (simp add: n4 ni)
  ultimately show "dtypes out ! ?i = NumericD" by simp
  assume r: "r \<in> set (rows out)"
  have c3: "\<exists>x. r3 ! col_index amount_col (names t3) = Number x" if "r3 \<in> set (rows t3)" for r3
    using fix_amount_column(2) [OF a m2 w2 that] n2 n3 by simp
  have c4: "\<exists>x. r4 ! col_index amount_col (names t4) = Number x" if "r4 \<in> set (rows t4)" for r4
    using column_kept [where P = "\<lambda>c. \<exists>x. c = Number x" and t = t3 and t' = t4
        and n = "status_col" and m = "amount_col", OF fix_status_rows [OF s] _ _ c3 that]
      assms(3) n3 n4 by simp
  show "\<exists>x. r ! ?i = Number x"
    using column_kept [where P = "\<lambda>c. \<exists>x. c = Number x" and t = t4 and t' = out
        and n = "date_col" and m = "amount_col", OF fix_date_rows [OF d] _ _ c4 r]
      assms(3) n4 by simp
qed

lemma clean_data_status_column:
  assumes "wf_table df" and "clean_data lib df = Inr (out, logs)"
    and "status_col \<in> set (names out)"
  shows "single_column status_col out"
    and "r \<in> set (rows out) \<Longrightarrow> r ! col_index status_col (names out) = Missing
           \<or> (\<exists>s. r ! col_index status_col (names out) = Text (py_title lib s))"
proof -
  let ?t2 = "remove_duplicates (standardize_headers lib df)"
  let ?i = "col_index status_col (names out)"
  let ?P = "\<lambda>c. c = Missing \<or> (\<exists>s. c = Text (py_title lib s))"
  from assms(2) obtain t3 l3 t4 l4 l5 where
    a: "fix_amount lib ?t2 = Inr (t3, l3)"
    and s: "fix_status lib t3 = Inr (t4, l4)" and d: "fix_date lib t4 = Inr (out, l5)"
    by (rule clean_data_stages)
  have n4: "names t4 = names out" using fix_date_shape(1) [OF d] by simp
  have n3: "names t3 = names out" using fix_status_shape(1) [OF s] n4 by simp
  have w3: "wf_table t3" by (rule fix_amount_wf [OF a dedup_wf [OF assms(1)]])
  have m3: "status_col \<in> set (names t3)" using assms(3) n3 by simp
  have ni: "names out ! ?i = status_col" by (rule col_index_nth [OF assms(3)])
  show "single_column status_col out"
    using fix_status_present(1) [OF s m3] n3 by (simp add: single_column_def)
  assume r: "r \<in> set (rows out)"
  have c4: "?P (r4 ! col_index status_col (names t4))" if "r4 \<in> set (rows t4)" for r4
    using fix_status_column(2) [OF s m3 w3 that] n3 n4 by simp
  show "?P (r ! ?i)"
    using column_kept [where P = ?P and t = t4 and t' = out
        and n = "date_col" and m = "status_col", OF fix_date_rows [OF d] _ _ c4 r]
      assms(3) n4 by simp
qed

lemma clean_data_date_column:
  assumes "wf_table df" and "clean_data lib df = Inr (out, logs)"
    and "date_col \<in> set (names out)"
  shows "single_column date_col out"
    and "dtypes out ! col_index date_col (names out) = DatetimeD"
    and "r \<in> set (rows out) \<Longrightarrow> \<exists>d. r ! col_index date_col (names out) = Date d"
proof -
  let ?t2 = "remove_duplicates (standardize_headers lib df)"
  from assms(2) obtain t3 l3 t4 l4 l5 where
    a: "fix_amount lib ?t2 = Inr (t3, l3)"
    and s: "fix_status lib t3 = Inr (t4, l4)" and d: "fix_date lib t4 = Inr (out, l5)"
    by (rule clean_data_stages)
  have n4: "names t4 = names out" using fix_date_shape(1) [OF d] by simp
  have w4: "wf_table t4"
    by (rule fix_status_wf [OF s fix_amount_wf [OF a dedup_wf [OF assms(1)]]])
  have m4: "date_col \<in> set (names t4)" using assms(3) n4 by simp
  show "single_column date_col out"
    using fix_date_present(1) [OF d m4] n4 by (simp add: single_column_def)
  show "dtypes out ! col_index date_col (names out) = DatetimeD"
    using fix_date_column(1) [OF d m4 w4] n4 by simp
  assume "r \<in> set (rows out)"
  then show "\<exists>d. r ! col_index date_col (names out) = Date d"
    using fix_date_column(2) [OF d m4 w4] n4 by simp
qed

subsection \<open>Stages E and C\<close>

lemma date_stage_run: "fix_date sample_lib date_table = Inr (date_fixed, [msg_date])"
  by code_simp

lemma date_table_wf: "wf_table date_table"
  by (simp add: wf_table_def date_table_def)

lemma date_table_names: "date_col \<in> set (names date_table)"
  by (simp add: date_table_def date_col_def)

lemma fix_date_rows_eq:
  assumes "wf_table t" and "date_col \<in> set (names t)" and "fix_date lib t = Inr (t', l)"
  shows "rows t' =
     map (\<lambda>r. r[col_index date_col (names t) :=
                 to_datetime lib (column (col_index date_col (names t)) (rows t))
                   (r ! col_index date_col (names t))])
       (filter (\<lambda>r. to_datetime lib (column (col_index date_col (names t)) (rows t))
                      (r ! col_index date_col (names t)) \<noteq> Missing) (rows t))"
proof -
  let ?i = "col_index date_col (names t)"
  let ?f = "\<lambda>r. r[?i := to_datetime lib (column ?i (rows t)) (r ! ?i)]"
  have i: "?i < length (names t)" by (rule col_index_less [OF assms(2)])
  have e: "(?f r ! ?i \<noteq> Missing) = (to_datetime lib (column ?i (rows t)) (r ! ?i) \<noteq> Missing)"
    if "r \<in> set (rows t)" for r
    using i wf_row_length [OF assms(1) that] by simp
  have "rows t' = filter (\<lambda>r. r ! ?i \<noteq> Missing) (map ?f (rows t))"
    by (subst fix_date_present(2) [OF assms(3,2)]) (simp add: dropna_def)
  also have "\<dots> = map ?f (filter (\<lambda>r. ?f r ! ?i \<noteq> Missing) (rows t))"
    by (simp add: filter_map comp_def)
  also have "filter (\<lambda>r. ?f r ! ?i \<noteq> Missing) (rows t)
      = filter (\<lambda>r. to_datetime lib (column ?i (rows t)) (r ! ?i) \<noteq> Missing) (rows t)"
    by (rule filter_cong [OF refl]) (rule e)
  finally show ?thesis .
qed

text \<open>
  C2. When the table has a date column, the date stage keeps exactly the rows whose
  date cell converts to a date (a missing cell does not), in their order, with the
  cell replaced by that date; every row it returns holds a date in the date column,
  and so does every row of the pipeline's result.
\<close>

theorem date_normalization:
  fixes t :: table and i col
  defines "i \<equiv> col_index date_col (names t)"
    and "col \<equiv> column (col_index date_col (names t)) (rows t)"
  assumes "wf_table t" and "date_col \<in> set (names t)" and "fix_date lib t = Inr (t', l)"
  shows "rows t' = map (\<lambda>r. r[i := to_datetime lib col (r ! i)])
                     (filter (\<lambda>r. to_datetime lib col (r ! i) \<noteq> Missing) (rows t))
       \<and> to_datetime lib col Missing = Missing
       \<and> (\<forall>r \<in> set (rows t'). \<exists>d. r ! i = Date d)
       \<and> names t' = names t
       \<and> (\<forall>df out logs. wf_table df \<and> clean_data lib df = Inr (out, logs)
              \<and> date_col \<in> set (names out)
            \<longrightarrow> (\<forall>r \<in> set (rows out). \<exists>d. r ! col_index date_col (names out) = Date d))"
proof -
  have "rows t' = map (\<lambda>r. r[i := to_datetime lib col (r ! i)])
                     (filter (\<lambda>r. to_datetime lib col (r ! i) \<noteq> Missing) (rows t))"
    unfolding i_def col_def by (rule fix_date_rows_eq [OF assms(3-5)])
  moreover have "\<forall>r \<in> set (rows t'). \<exists>d. r ! i = Date d"
    unfolding i_def using fix_date_column(2) [OF assms(5,4,3)] by blast
  moreover have "names t' = names t" by (rule fix_date_shape(1) [OF assms(5)])
  moreover have "\<forall>df out logs. wf_table df \<and> clean_data lib df = Inr (out, logs)
              \<and> date_col \<in> set (names out)
            \<longrightarrow> (\<forall>r \<in> set (rows out). \<exists>d. r ! col_index date_col (names out) = Date d)"
    using clean_data_date_column(3) by blast
  ultimately show ?thesis by simp
qed

theorem date_normalization_witness:
  "wf_table date_table \<and> date_col \<in> set (names date_table)
   \<and> fix_date sample_lib date_table = Inr (date_fixed, [msg_date])
   \<and> rows date_table = [[Str ''2024-01-03''], [Missing], [Str ''soon'']]
   \<and> rows date_fixed = [[Date (Ymd 2024 1 3)]]
   \<and> names date_fixed = names date_table"
  using date_normalization [OF date_table_wf date_table_names date_stage_run]
    date_table_wf date_table_names date_stage_run
  by (simp add: date_table_def date_fixed_def)








lemma amount_cell_Number:
  "to_numeric lib (remove_commas (str_num lib x)) = Number x \<Longrightarrow>
   amount_cell lib (Number x) = Number x"
  by (simp add: amount_cell_def)



subsection \<open>Stage D\<close>

lemma title_from_concat:
  "title_from lib prev pre s =
     concat (map (\<lambda>k. if (k = 0 \<and> prev) \<or> (0 < k \<and> is_cased lib (s ! (k - 1)))
                       then lower_cp lib (pre @ take k s) (s ! k) (drop (Suc k) s)
                       else title_cp lib (s ! k)) [0..<length s])"
proof (induction s arbitrary: prev pre)
  case Nil
  then show ?case by simp
next
  case (Cons c cs)
  let ?G = "\<lambda>k. if (k = 0 \<and> prev) \<or> (0 < k \<and> is_cased lib ((c # cs) ! (k - 1)))
                 then lower_cp lib (pre @ take k (c # cs)) ((c # cs) ! k) (drop (Suc k) (c # cs))
                 else title_cp lib ((c # cs) ! k)"
  let ?F = "\<lambda>k. if (k = 0 \<and> is_cased lib c) \<or> (0 < k \<and> is_cased lib (cs ! (k - 1)))
                 then lower_cp lib ((pre @ [c]) @ take k cs) (cs ! k) (drop (Suc k) cs)
                 else title_cp lib (cs ! k)"
  have u: "[0..<length (c # cs)] = 0 # map Suc [0..<length cs]"
    by (simp add: upt_conv_Cons map_Suc_upt del: upt_Suc)
  have g: "?G (Suc k) = ?F k" for k
    by (cases k) simp_all
  have "concat (map ?G [0..<length (c # cs)]) = ?G 0 @ concat (map (\<lambda>k. ?G (Suc k)) [0..<length cs])"
    unfolding u by (simp add: comp_def)
  also have "\<dots> = ?G 0 @ concat (map ?F [0..<length cs])"
    by (simp only: g)
  also have "\<dots> = ?G 0 @ title_from lib (is_cased lib c) (pre @ [c]) cs"
    by (simp only: Cons.IH [of "is_cased lib c" "pre @ [c]"])
  also have "\<dots> = title_from lib prev pre (c # cs)"
    by simp
  finally show ?case by simp
qed

lemma py_title_concat:
  "py_title lib s =
     concat (map (\<lambda>k. if 0 < k \<and> is_cased lib (s ! (k - 1))
                       then lower_cp lib (take k s) (s ! k) (drop (Suc k) s)
                       else title_cp lib (s ! k)) [0..<length s])"
  by (simp add: py_title_def title_from_concat cong: if_cong)

lemma length_title_from: "is_ascii s \<Longrightarrow> length (title_from lib prev pre s) = length s"
  by (induction s arbitrary: prev pre)
     (simp_all add: is_ascii_Cons lower_cp_ascii title_cp_ascii)

lemma title_from_nth:
  "is_ascii s \<Longrightarrow> k < length s \<Longrightarrow> title_from lib prev pre s ! k =
     (if (k = 0 \<and> prev) \<or> (0 < k \<and> (ascii_upper (s ! (k - 1)) \<or> ascii_lower (s ! (k - 1))))
      then to_lower (s ! k) else to_upper (s ! k))"
proof (induction s arbitrary: prev pre k)
  case Nil
  then show ?case by simp
next
  case (Cons c cs)
  then have c: "c < 128" and cs: "is_ascii cs" by (simp_all add: is_ascii_Cons)
  show ?case
  proof (cases k)
    case 0
    then show ?thesis by (simp add: lower_cp_ascii [OF c] title_cp_ascii [OF c])
  next
    case (Suc j)
    with Cons.prems have "j < length cs" by simp
    from Cons.IH [OF cs this, of "ascii_upper c \<or> ascii_lower c" "pre @ [c]"] Suc show ?thesis
      by (cases j)
         (auto simp: lower_cp_ascii [OF c] title_cp_ascii [OF c] is_cased_ascii [OF c])
  qed
qed

lemma py_title_nth:
  "is_ascii s \<Longrightarrow> k < length s \<Longrightarrow> py_title lib s ! k =
     (if 0 < k \<and> (ascii_upper (s ! (k - 1)) \<or> ascii_lower (s ! (k - 1)))
      then to_lower (s ! k) else to_upper (s ! k))"
  by (simp add: py_title_def title_from_nth)

lemma is_ascii_title_from: "is_ascii s \<Longrightarrow> is_ascii (title_from lib prev pre s)"
  by (induction s arbitrary: prev pre)
     (simp_all add: is_ascii_Cons lower_cp_ascii title_cp_ascii to_lower_ascii to_upper_ascii)

lemma title_from_idem:
  "is_ascii s \<Longrightarrow> title_from lib prev pre' (title_from lib prev pre s) = title_from lib prev pre s"
proof (induction s arbitrary: prev pre pre')
  case Nil
  then show ?case by simp
next
  case (Cons c cs)
  then have c: "c < 128" and cs: "is_ascii cs" by (simp_all add: is_ascii_Cons)
  let ?x = "if prev then to_lower c else to_upper c"
  have x: "?x < 128" using c by (simp add: to_lower_ascii to_upper_ascii)
  have l: "(ascii_upper ?x \<or> ascii_lower ?x) = (ascii_upper c \<or> ascii_lower c)"
    using letter_to_lower [of c] letter_to_upper [of c] by simp
  have f: "(if prev then to_lower ?x else to_upper ?x) = ?x"
    by (simp add: to_lower_idem to_upper_idem)
  show ?case
    unfolding title_from_ascii_Cons [OF c] title_from_ascii_Cons [OF x] l f
    using Cons.IH [OF cs] by simp
qed

lemma py_title_idem: "is_ascii s \<Longrightarrow> py_title lib (py_title lib s) = py_title lib s"
  by (simp add: py_title_def title_from_idem)

lemma title_from_words:
  "list_all (\<lambda>c. is_cased lib c \<noteq> is_space lib c) s \<Longrightarrow>
   title_from lib (\<not> start) pre s = title_words_from lib start pre s"
proof (induction s arbitrary: start pre)
  case Nil
  then show ?case by simp
next
  case (Cons c cs)
  then have c: "is_cased lib c = (\<not> is_space lib c)" by auto
  from Cons have "title_from lib (\<not> is_space lib c) (pre @ [c]) cs
      = title_words_from lib (is_space lib c) (pre @ [c]) cs"
    by simp
  then show ?case by (simp add: c)
qed

lemma py_title_words:
  "list_all (\<lambda>c. is_cased lib c \<noteq> is_space lib c) s \<Longrightarrow> py_title lib s = spec_title_case lib s"
  using title_from_words [of lib s True "[]"] by (simp add: py_title_def spec_title_case_def)

lemma title_examples:
  "py_title lib (ascii ''PAID'') = ascii ''Paid''"
  "py_title lib (ascii ''pending'') = ascii ''Pending''"
  "py_title lib (ascii ''not-paid'') = ascii ''Not-Paid''"
proof -
  have a: "is_ascii (ascii ''PAID'')" "is_ascii (ascii ''pending'')" "is_ascii (ascii ''not-paid'')"
    by code_simp+
  have e: "py_title sample_lib (ascii ''PAID'') = ascii ''Paid''"
    "py_title sample_lib (ascii ''pending'') = ascii ''Pending''"
    "py_title sample_lib (ascii ''not-paid'') = ascii ''Not-Paid''"
    by code_simp+
  show "py_title lib (ascii ''PAID'') = ascii ''Paid''"
    using py_title_any_lib [OF a(1), of lib sample_lib] e(1) by simp
  show "py_title lib (ascii ''pending'') = ascii ''Pending''"
    using py_title_any_lib [OF a(2), of lib sample_lib] e(2) by simp
  show "py_title lib (ascii ''not-paid'') = ascii ''Not-Paid''"
    using py_title_any_lib [OF a(3), of lib sample_lib] e(3) by simp
qed

lemma status_stage_run: "fix_status sample_lib status_table = Inr (status_fixed, [msg_status])"
  by code_simp

lemma status_table_names: "status_col \<in> set (names status_table)"
  by (simp add: status_table_def status_col_def)

lemma elan_title: "py_title sample_lib (233 # ascii ''lan'') = 201 # ascii ''lan''"
  by code_simp

text \<open>
  C6 (amended). When the table has a status column, the status stage removes no row
  and rewrites only the status cell of each row: a text becomes its Python title-case
  form and any other cell becomes missing. In that form a character is title-cased
  when it starts the text or follows a character that is not a cased letter, and
  lower-cased when it follows a cased letter, so every character that is not a letter
  starts a new word, not whitespace alone: \<^verbatim>\<open>PAID\<close> becomes \<^verbatim>\<open>Paid\<close>, \<^verbatim>\<open>pending\<close>
  becomes \<^verbatim>\<open>Pending\<close>, and \<^verbatim>\<open>not-paid\<close> becomes \<^verbatim>\<open>Not-Paid\<close>. On a text in which
  every character is either a cased letter or whitespace, this is the title case of
  whitespace-separated words.
\<close>

theorem status_normalization:
  fixes t :: table and i
  defines "i \<equiv> col_index status_col (names t)"
  assumes "status_col \<in> set (names t)" and "fix_status lib t = Inr (t', l)"
  shows "rows t' = map (\<lambda>r. r[i := str_title lib (r ! i)]) (rows t)
       \<and> length (rows t') = length (rows t)
       \<and> names t' = names t
       \<and> (\<forall>s. str_title lib (Text s) = Text (py_title lib s))
       \<and> (\<forall>x. str_title lib (Number x) = Missing)
       \<and> (\<forall>d. str_title lib (Date d) = Missing)
       \<and> str_title lib Missing = Missing
       \<and> (\<forall>s. py_title lib s =
             concat (map (\<lambda>k. if 0 < k \<and> is_cased lib (s ! (k - 1))
                               then lower_cp lib (take k s) (s ! k) (drop (Suc k) s)
                               else title_cp lib (s ! k)) [0..<length s]))
       \<and> (\<forall>s. is_ascii s \<longrightarrow> length (py_title lib s) = length s
             \<and> (\<forall>k < length s. py_title lib s ! k =
                   (if 0 < k \<and> (ascii_upper (s ! (k - 1)) \<or> ascii_lower (s ! (k - 1)))
                    then to_lower (s ! k) else to_upper (s ! k))))
       \<and> (\<forall>s. list_all (\<lambda>c. is_cased lib c \<noteq> is_space lib c) s \<longrightarrow>
             py_title lib s = spec_title_case lib s)
       \<and> py_title lib (ascii ''PAID'') = ascii ''Paid''
       \<and> py_title lib (ascii ''pending'') = ascii ''Pending''
       \<and> py_title lib (ascii ''not-paid'') = ascii ''Not-Paid''"
proof -
  have r: "rows t' = map (\<lambda>r. r[i := str_title lib (r ! i)]) (rows t)"
    unfolding i_def by (subst fix_status_present(3) [OF assms(3,2)]) simp
  have n: "length (rows t') = length (rows t)" by (rule fix_status_shape(2) [OF assms(3)])
  have m: "names t' = names t" by (rule fix_status_shape(1) [OF assms(3)])
  have a: "\<forall>s. is_ascii s \<longrightarrow> length (py_title lib s) = length s
             \<and> (\<forall>k < length s. py_title lib s ! k =
                   (if 0 < k \<and> (ascii_upper (s ! (k - 1)) \<or> ascii_lower (s ! (k - 1)))
                    then to_lower (s ! k) else to_upper (s ! k)))"
    using py_title_nth by (simp add: py_title_def length_title_from)
  have c: "\<forall>s. py_title lib s =
             concat (map (\<lambda>k. if 0 < k \<and> is_cased lib (s ! (k - 1))
                               then lower_cp lib (take k s) (s ! k) (drop (Suc k) s)
                               else title_cp lib (s ! k)) [0..<length s])"
    using py_title_concat by blast
  have w: "\<forall>s. list_all (\<lambda>c. is_cased lib c \<noteq> is_space lib c) s \<longrightarrow>
             py_title lib s = spec_title_case lib s"
    using py_title_words by blast
  have cells: "(\<forall>s. str_title lib (Text s) = Text (py_title lib s))
       \<and> (\<forall>x. str_title lib (Number x) = Missing)
       \<and> (\<forall>d. str_title lib (Date d) = Missing)
       \<and> str_title lib Missing = Missing"
    by simp
  from r n m cells c a w title_examples [of lib] show ?thesis by blast
qed

theorem status_normalization_witness:
  "status_col \<in> set (names status_table)
   \<and> fix_status sample_lib status_table = Inr (status_fixed, [msg_status])
   \<and> rows status_table = [[Str ''PAID''], [Str ''pending''], [Str ''not-paid''],
                           [Text (233 # ascii ''lan'')]]
   \<and> rows status_fixed = [[Str ''Paid''], [Str ''Pending''], [Str ''Not-Paid''],
                           [Text (201 # ascii ''lan'')]]
   \<and> length (rows status_fixed) = length (rows status_table)
   \<and> py_title sample_lib (ascii ''PAID'') = ascii ''Paid''
   \<and> str_title sample_lib (Text (233 # ascii ''lan'')) = Text (201 # ascii ''lan'')"
proof -
  note th = status_normalization [OF status_table_names status_stage_run]
  from th have "str_title sample_lib (Text (233 # ascii ''lan''))
      = Text (py_title sample_lib (233 # ascii ''lan''))"
    by blast
  then have e: "str_title sample_lib (Text (233 # ascii ''lan'')) = Text (201 # ascii ''lan'')"
    by (simp only: elan_title)
  have rs: "rows status_table = [[Str ''PAID''], [Str ''pending''], [Str ''not-paid''],
                           [Text (233 # ascii ''lan'')]]"
    "rows status_fixed = [[Str ''Paid''], [Str ''Pending''], [Str ''Not-Paid''],
                           [Text (201 # ascii ''lan'')]]"
    by (simp_all add: status_table_def status_fixed_def)
  from th have "length (rows status_fixed) = length (rows status_table)"
    "py_title sample_lib (ascii ''PAID'') = ascii ''Paid''"
    by blast+
  with e rs status_table_names status_stage_run show ?thesis by blast
qed

theorem status_title_counterexample:
  "clean_data sample_lib status_table
     = Inr (status_fixed, [msg_headers, msg_removed 0, msg_status])
   \<and> rows status_table ! 2 = [Str ''not-paid'']
   \<and> rows status_fixed ! 2 = [Str ''Not-Paid'']
   \<and> spec_title_case sample_lib (ascii ''not-paid'') = ascii ''Not-paid''
   \<and> rows status_fixed ! 2 \<noteq> [Text (spec_title_case sample_lib (ascii ''not-paid''))]"
  by code_simp

subsection \<open>The store\<close>

lemma fix_date_parse:
  "date_col \<in> set (names t) \<Longrightarrow> fix_date lib t = Inr (t5, l5) \<Longrightarrow>
   names (parse_date_column lib t) = names t \<and> rows (parse_date_column lib t) =
     map (\<lambda>r. r[col_index date_col (names t) :=
                 to_datetime lib (column (col_index date_col (names t)) (rows t))
                   (r ! col_index date_col (names t))]) (rows t)"
  by (simp add: parse_date_column_def Let_def)

lemma clean_data_store_result:
  assumes "clean_data_store lib s df = Inr (s', df', logs)" and "df < length s"
  shows "clean_data lib (s ! df) = Inr (s' ! df', logs)"
    and "s' ! df = standardize_headers lib (s ! df)"
    and "length s \<le> df'" and "df' < length s'"
    and "\<And>r. r < length s \<Longrightarrow> r \<noteq> df \<Longrightarrow> s' ! r = s ! r"
proof -
  let ?t1 = "standardize_headers lib (s ! df)"
  let ?t2 = "remove_duplicates ?t1"
  let ?s1 = "s[df := ?t1]"
  let ?s2 = "?s1 @ [?t2]"
  let ?n = "length s"
  have s1: "?s1 ! df = ?t1" using assms(2) by simp
  have s2: "?s2 ! ?n = ?t2" by (simp add: nth_append)
  from assms(1) obtain t3 l3 where a: "fix_amount lib ?t2 = Inr (t3, l3)"
    by (auto simp: clean_data_store_def alloc_def Let_def s1 nth_append
        split: sum.splits prod.splits if_splits)
  let ?s3 = "?s2[?n := t3]"
  have s3: "?s3 ! ?n = t3" by simp
  from assms(1) a obtain t4 l4 where st: "fix_status lib t3 = Inr (t4, l4)"
    by (auto simp: clean_data_store_def alloc_def Let_def s1 nth_append
        split: sum.splits prod.splits if_splits)
  let ?s4 = "?s3[?n := t4]"
  have s4: "?s4 ! ?n = t4" by simp
  from assms(1) a st obtain t5 l5 where d: "fix_date lib t4 = Inr (t5, l5)"
    by (auto simp: clean_data_store_def alloc_def Let_def s1 nth_append
        split: sum.splits prod.splits if_splits)
  have cd: "clean_data lib (s ! df) = Inr (t5, [msg_headers,
      msg_removed (length (rows ?t1) - length (rows ?t2))] @ l3 @ l4 @ l5)"
    using a st d by (simp add: clean_data_def Let_def)
  have res: "(s', df', logs) =
    (if date_col \<in> set (names t4)
     then (?s4[?n := parse_date_column lib t4] @ [t5], Suc ?n,
           [msg_headers, msg_removed (length (rows ?t1) - length (rows ?t2))] @ l3 @ l4 @ l5)
     else (?s4, ?n,
           [msg_headers, msg_removed (length (rows ?t1) - length (rows ?t2))] @ l3 @ l4 @ l5))"
    using assms(1) a st d
    by (auto simp: clean_data_store_def alloc_def Let_def s1 nth_append split: if_splits)
  have t5: "t5 = t4" if "date_col \<notin> set (names t4)"
    using d that by (simp add: fix_date_absent)
  show "clean_data lib (s ! df) = Inr (s' ! df', logs)"
    using res cd t5 by (auto simp: nth_append split: if_splits)
  show "s' ! df = standardize_headers lib (s ! df)"
    using res assms(2) by (auto simp: nth_append split: if_splits)
  show "length s \<le> df'" using res by (auto split: if_splits)
  show "df' < length s'" using res by (auto split: if_splits)
  show "s' ! r = s ! r" if "r < length s" "r \<noteq> df" for r
    using res that by (auto simp: nth_append split: if_splits)
qed

lemma sales_pipeline_run: "run_pipeline sample_lib [sales_table] 0 = Inr (sales_store, 3, sales_logs)"
  by code_simp

lemma run_pipeline_result:
  assumes "df_raw < length s" and "run_pipeline lib s df_raw = Inr (s', df_clean, logs)"
  shows "clean_data lib (s ! df_raw) = Inr (s' ! df_clean, logs)"
    and "length s < df_clean"
    and "\<And>r. r < length s \<Longrightarrow> s' ! r = s ! r"
proof -
  let ?s1 = "s @ [s ! df_raw]"
  have run: "clean_data_store lib ?s1 (length s) = Inr (s', df_clean, logs)"
    using assms(2) by (simp add: run_pipeline_def alloc_def)
  have l: "length s < length ?s1" by simp
  show "clean_data lib (s ! df_raw) = Inr (s' ! df_clean, logs)"
    using clean_data_store_result(1) [OF run l] by simp
  show "length s < df_clean"
    using clean_data_store_result(3) [OF run l] by simp
  show "s' ! r = s ! r" if "r < length s" for r
    using clean_data_store_result(5) [OF run l, of r] that by (simp add: nth_append)
qed

text \<open>
  C5 (amended). The pipeline renames the columns of the table object it is given in
  place, leaves the rows of that object as they are, and returns another object. The
  caller's table is protected by the call site, which passes a copy: after
  \<^verbatim>\<open>clean_data(df_raw.copy())\<close> every table that existed before the call, the caller's
  among them, is as it was, and the table returned is the pipeline's result for it.
\<close>

theorem caller_table_unchanged:
  assumes "df_raw < length s" and "run_pipeline lib s df_raw = Inr (s', df_clean, logs)"
  shows "s' ! df_raw = s ! df_raw
       \<and> (\<forall>r < length s. s' ! r = s ! r)
       \<and> df_clean \<noteq> df_raw
       \<and> clean_data lib (s ! df_raw) = Inr (s' ! df_clean, logs)
       \<and> (\<forall>s0 df s1 df1 logs1.
             df < length s0 \<and> clean_data_store lib s0 df = Inr (s1, df1, logs1) \<longrightarrow>
               names (s1 ! df) = map (normalize_name lib) (names (s0 ! df))
               \<and> rows (s1 ! df) = rows (s0 ! df)
               \<and> df1 \<noteq> df
               \<and> (\<forall>r < length s0. r \<noteq> df \<longrightarrow> s1 ! r = s0 ! r)
               \<and> clean_data lib (s0 ! df) = Inr (s1 ! df1, logs1))"
proof -
  have store: "names (s1 ! df) = map (normalize_name lib) (names (s0 ! df))
               \<and> rows (s1 ! df) = rows (s0 ! df)
               \<and> df1 \<noteq> df
               \<and> (\<forall>r < length s0. r \<noteq> df \<longrightarrow> s1 ! r = s0 ! r)
               \<and> clean_data lib (s0 ! df) = Inr (s1 ! df1, logs1)"
    if "df < length s0" and "clean_data_store lib s0 df = Inr (s1, df1, logs1)"
    for s0 df s1 df1 logs1
    using clean_data_store_result [OF that(2,1)] that(1)
    by (auto simp: standardize_headers_def)
  have "df_clean \<noteq> df_raw"
    using run_pipeline_result(2) [OF assms] assms(1) by simp
  with run_pipeline_result(1,3) [OF assms] assms(1) store show ?thesis by blast
qed

theorem caller_table_unchanged_witness:
  "(0::nat) < length [sales_table]
   \<and> run_pipeline sample_lib [sales_table] 0 = Inr (sales_store, 3, sales_logs)
   \<and> sales_store ! 0 = [sales_table] ! 0
   \<and> clean_data sample_lib ([sales_table] ! 0) = Inr (sales_store ! 3, sales_logs)"
proof -
  have l: "(0::nat) < length [sales_table]" by simp
  from caller_table_unchanged [OF l sales_pipeline_run] l sales_pipeline_run
  show ?thesis by blast
qed

theorem caller_table_counterexample:
  "object_after (clean_data_store sample_lib [sales_table] 0) 0
     = Some (standardize_headers sample_lib sales_table)
   \<and> names sales_table
       = [ascii '' Customer Name '', ascii ''Date'', ascii ''Amount'', ascii ''Status'']
   \<and> names (standardize_headers sample_lib sales_table)
       = [ascii ''customer_name'', date_col, amount_col, status_col]
   \<and> object_after (clean_data_store sample_lib [sales_table] 0) 0 \<noteq> Some sales_table"
  by code_simp

subsection \<open>Stages that change nothing\<close>

lemma standardize_headers_fixed:
  assumes "\<And>n. n \<in> set (names t) \<Longrightarrow> normalize_name lib n = n"
  shows "standardize_headers lib t = t"
proof -
  have "map (normalize_name lib) (names t) = names t"
    using assms by (intro map_idI) simp
  then show ?thesis by (simp add: standardize_headers_def)
qed

lemma fix_amount_fixed:
  assumes "amount_col \<in> set (names t) \<Longrightarrow> single_column amount_col t"
    and "amount_col \<in> set (names t) \<Longrightarrow> dtypes t ! col_index amount_col (names t) = NumericD"
    and "\<And>r. amount_col \<in> set (names t) \<Longrightarrow> r \<in> set (rows t) \<Longrightarrow>
           amount_cell lib (r ! col_index amount_col (names t)) = r ! col_index amount_col (names t)"
  shows "fix_amount lib t = Inr (t, if amount_col \<in> set (names t) then [msg_amount] else [])"
proof (cases "amount_col \<in> set (names t)")
  case True
  let ?i = "col_index amount_col (names t)"
  have d: "(dtypes t)[?i := NumericD] = dtypes t"
    using assms(2) [OF True] by (metis list_update_id)
  have r: "map (\<lambda>r. r[?i := amount_cell lib (r ! ?i)]) (rows t) = rows t"
    using assms(3) [OF True] by (intro map_idI) simp
  show ?thesis
    using True assms(1) [OF True] by (simp add: fix_amount_def Let_def d r)
next
  case False
  then show ?thesis by (simp add: fix_amount_def)
qed

lemma str_accessor_ok_texts:
  assumes "\<And>c. c \<in> set col \<Longrightarrow> c = Missing \<or> (\<exists>s. c = Text s)"
  shows "str_accessor_ok ObjectD col"
proof -
  let ?vs = "filter (\<lambda>c. c \<noteq> Missing) col"
  have t: "\<exists>s. c = Text s" if "c \<in> set ?vs" for c using assms that by auto
  have "\<not> list_all is_number ?vs \<and> \<not> list_all is_date ?vs" if "?vs \<noteq> []"
  proof -
    from that obtain c cs where vs: "?vs = c # cs" by (cases ?vs) auto
    then have "c \<in> set ?vs" by simp
    from t [OF this] obtain s where "c = Text s" by blast
    then show ?thesis by (simp add: vs)
  qed
  then show ?thesis by (auto simp: str_accessor_ok_def Let_def)
qed

lemma title_dtype_texts:
  assumes "\<And>c. c \<in> set col \<Longrightarrow> c = Missing \<or> (\<exists>s. c = Text s)"
  shows "title_dtype col = ObjectD"
proof (cases "list_all (\<lambda>c. c = Missing) col")
  case True
  then show ?thesis by (simp add: title_dtype_def)
next
  case False
  then obtain c where c: "c \<in> set col" "c \<noteq> Missing" by (auto simp: list_all_iff)
  with assms obtain s where "c = Text s" by blast
  with c(1) have "list_ex is_text col" by (force simp: list_ex_iff)
  then show ?thesis by (simp add: title_dtype_def)
qed

lemma fix_status_fixed:
  assumes "status_col \<in> set (names t) \<Longrightarrow> single_column status_col t"
    and "status_col \<in> set (names t) \<Longrightarrow> dtypes t ! col_index status_col (names t) = ObjectD"
    and "\<And>r. status_col \<in> set (names t) \<Longrightarrow> r \<in> set (rows t) \<Longrightarrow>
           r ! col_index status_col (names t) = Missing
           \<or> (\<exists>s. r ! col_index status_col (names t) = Text s \<and> py_title lib s = s)"
  shows "fix_status lib t = Inr (t, if status_col \<in> set (names t) then [msg_status] else [])"
proof (cases "status_col \<in> set (names t)")
  case True
  let ?i = "col_index status_col (names t)"
  have cells: "c = Missing \<or> (\<exists>s. c = Text s)" if "c \<in> set (column ?i (rows t))" for c
    using assms(3) [OF True] that by (auto simp: column_def)
  have d: "(dtypes t)[?i := title_dtype (column ?i (rows t))] = dtypes t"
    using assms(2) [OF True] title_dtype_texts [OF cells] by (metis list_update_id)
  have e: "str_title lib (r ! ?i) = r ! ?i" if "r \<in> set (rows t)" for r
    using assms(3) [OF True that] by auto
  have r: "map (\<lambda>r. r[?i := str_title lib (r ! ?i)]) (rows t) = rows t"
    using e by (intro map_idI) simp
  have ok: "str_accessor_ok (dtypes t ! ?i) (column ?i (rows t))"
    unfolding assms(2) [OF True] by (rule str_accessor_ok_texts [OF cells])
  show ?thesis
    using True assms(1) [OF True] ok by (simp add: fix_status_def Let_def d r)
next
  case False
  then show ?thesis by (simp add: fix_status_def)
qed

lemma fix_status_raises:
  assumes "status_col \<in> set (names t)"
    and "dtypes t ! col_index status_col (names t) \<noteq> ObjectD"
  shows "fix_status lib t = Inl AttributeError"
  using assms by (simp add: fix_status_def Let_def str_accessor_ok_def)

lemma fix_date_fixed:
  assumes "date_col \<in> set (names t) \<Longrightarrow> single_column date_col t"
    and "date_col \<in> set (names t) \<Longrightarrow> dtypes t ! col_index date_col (names t) = DatetimeD"
    and "\<And>r. date_col \<in> set (names t) \<Longrightarrow> r \<in> set (rows t) \<Longrightarrow>
           \<exists>d. r ! col_index date_col (names t) = Date d"
  shows "fix_date lib t = Inr (t, if date_col \<in> set (names t) then [msg_date] else [])"
proof (cases "date_col \<in> set (names t)")
  case True
  let ?i = "col_index date_col (names t)"
  let ?col = "column ?i (rows t)"
  have d: "(dtypes t)[?i := DatetimeD] = dtypes t"
    using assms(2) [OF True] by (metis list_update_id)
  have e: "to_datetime lib ?col (r ! ?i) = r ! ?i" if "r \<in> set (rows t)" for r
    using assms(3) [OF True that] by auto
  have r: "map (\<lambda>r. r[?i := to_datetime lib ?col (r ! ?i)]) (rows t) = rows t"
    using e by (intro map_idI) simp
  have f: "dropna ?i (rows t) = rows t"
    unfolding dropna_def using assms(3) [OF True] by (intro filter_True) fastforce
  have p: "parse_date_column lib t = t"
    by (simp add: parse_date_column_def Let_def d r)
  show ?thesis
    using True assms(1) [OF True] by (simp add: fix_date_def Let_def p f)
next
  case False
  then show ?thesis by (simp add: fix_date_def)
qed

lemma clean_data_rerun_stages:
  assumes "wf_table df" and "clean_data lib df = Inr (out, logs)"
    and "\<And>n. n \<in> set (names out) \<Longrightarrow> normalize_name lib n = n"
    and "\<And>r x. amount_col \<in> set (names out) \<Longrightarrow> r \<in> set (rows out) \<Longrightarrow>
           r ! col_index amount_col (names out) = Number x \<Longrightarrow>
           to_numeric lib (remove_commas (str_num lib x)) = Number x"
  shows "remove_duplicates (standardize_headers lib out) = out\<lparr>rows := drop_duplicates (rows out)\<rparr>"
    and "fix_amount lib (out\<lparr>rows := drop_duplicates (rows out)\<rparr>) =
           Inr (out\<lparr>rows := drop_duplicates (rows out)\<rparr>,
                if amount_col \<in> set (names out) then [msg_amount] else [])"
    and "fix_date lib (out\<lparr>rows := drop_duplicates (rows out)\<rparr>) =
           Inr (out\<lparr>rows := drop_duplicates (rows out)\<rparr>,
                if date_col \<in> set (names out) then [msg_date] else [])"
proof -
  let ?t = "out\<lparr>rows := drop_duplicates (rows out)\<rparr>"
  have rt: "set (rows ?t) = set (rows out)"
    by (simp add: set_drop_duplicates)
  show "remove_duplicates (standardize_headers lib out) = ?t"
    by (simp add: standardize_headers_fixed [of out lib, OF assms(3)] remove_duplicates_def)
  have sc: "single_column n ?t = single_column n out" for n
    by (simp add: single_column_def)
  show "fix_amount lib ?t = Inr (?t, if amount_col \<in> set (names out) then [msg_amount] else [])"
  proof -
    have "amount_cell lib (r ! col_index amount_col (names ?t)) = r ! col_index amount_col (names ?t)"
      if m: "amount_col \<in> set (names ?t)" and r: "r \<in> set (rows ?t)" for r
    proof -
      from m r have m': "amount_col \<in> set (names out)" and r': "r \<in> set (rows out)"
        using rt by simp_all
      from clean_data_amount_column(3) [OF assms(1,2) m' r'] obtain x
        where x: "r ! col_index amount_col (names out) = Number x" by blast
      from assms(4) [OF m' r' x] show ?thesis
        by (simp add: x amount_cell_Number)
    qed
    from fix_amount_fixed [of ?t lib, OF _ _ this] show ?thesis
      using clean_data_amount_column(1,2) [OF assms(1,2)] by (simp add: sc)
  qed
  show "fix_date lib ?t = Inr (?t, if date_col \<in> set (names out) then [msg_date] else [])"
    using fix_date_fixed [of ?t lib] clean_data_date_column [OF assms(1,2)]
    by (simp add: sc set_drop_duplicates)
qed

lemma clean_data_rerun:
  assumes "wf_table df" and "clean_data lib df = Inr (out, logs)"
    and "\<And>n. n \<in> set (names out) \<Longrightarrow> normalize_name lib n = n"
    and "\<And>r x. amount_col \<in> set (names out) \<Longrightarrow> r \<in> set (rows out) \<Longrightarrow>
           r ! col_index amount_col (names out) = Number x \<Longrightarrow>
           to_numeric lib (remove_commas (str_num lib x)) = Number x"
    and "\<And>r s. status_col \<in> set (names out) \<Longrightarrow> r \<in> set (rows out) \<Longrightarrow>
           r ! col_index status_col (names out) = Text s \<Longrightarrow> py_title lib s = s"
    and "status_col \<in> set (names out) \<Longrightarrow>
           dtypes out ! col_index status_col (names out) = ObjectD"
  shows "clean_data lib out =
     Inr (out\<lparr>rows := drop_duplicates (rows out)\<rparr>,
          logs[1 := msg_removed (length (rows out) - length (drop_duplicates (rows out)))])"
proof -
  let ?t = "out\<lparr>rows := drop_duplicates (rows out)\<rparr>"
  note st = clean_data_rerun_stages [OF assms(1-4)]
  have sc: "single_column n ?t = single_column n out" for n
    by (simp add: single_column_def)
  have s: "fix_status lib ?t = Inr (?t, if status_col \<in> set (names out) then [msg_status] else [])"
  proof -
    have "r ! col_index status_col (names ?t) = Missing
           \<or> (\<exists>s. r ! col_index status_col (names ?t) = Text s \<and> py_title lib s = s)"
      if m: "status_col \<in> set (names ?t)" and r: "r \<in> set (rows ?t)" for r
    proof -
      from m r have m': "status_col \<in> set (names out)" and r': "r \<in> set (rows out)"
        by (simp_all add: set_drop_duplicates)
      from clean_data_status_column(2) [OF assms(1,2) m' r'] assms(5) [OF m' r']
      show ?thesis by auto
    qed
    from fix_status_fixed [of ?t lib, OF _ _ this] show ?thesis
      using clean_data_status_column(1) [OF assms(1,2)] assms(6) by (simp add: sc)
  qed
  have "clean_data lib out =
     Inr (?t, [msg_headers, msg_removed (length (rows out) - length (drop_duplicates (rows out)))]
            @ (if amount_col \<in> set (names out) then [msg_amount] else [])
            @ (if status_col \<in> set (names out) then [msg_status] else [])
            @ (if date_col \<in> set (names out) then [msg_date] else []))"
  proof -
    have sh: "standardize_headers lib out = out"
      by (rule standardize_headers_fixed [OF assms(3)])
    have rd: "remove_duplicates out = ?t" by (simp add: remove_duplicates_def)
    show ?thesis
      unfolding clean_data_def Let_def sh rd
      by (simp only: st(2,3) s sum.case prod.case) simp
  qed
  moreover have "logs[1 := msg_removed (length (rows out) - length (drop_duplicates (rows out)))]
     = [msg_headers, msg_removed (length (rows out) - length (drop_duplicates (rows out)))]
            @ (if amount_col \<in> set (names out) then [msg_amount] else [])
            @ (if status_col \<in> set (names out) then [msg_status] else [])
            @ (if date_col \<in> set (names out) then [msg_date] else [])"
    by (subst clean_data_logs [OF assms(2)]) simp
  ultimately show ?thesis by simp
qed

lemma clean_data_rerun_raises:
  assumes "wf_table df" and "clean_data lib df = Inr (out, logs)"
    and "\<And>n. n \<in> set (names out) \<Longrightarrow> normalize_name lib n = n"
    and "\<And>r x. amount_col \<in> set (names out) \<Longrightarrow> r \<in> set (rows out) \<Longrightarrow>
           r ! col_index amount_col (names out) = Number x \<Longrightarrow>
           to_numeric lib (remove_commas (str_num lib x)) = Number x"
    and "status_col \<in> set (names out)"
    and "dtypes out ! col_index status_col (names out) \<noteq> ObjectD"
  shows "clean_data lib out = Inl AttributeError"
proof -
  let ?t = "out\<lparr>rows := drop_duplicates (rows out)\<rparr>"
  note st = clean_data_rerun_stages [OF assms(1-4)]
  have s: "fix_status lib ?t = Inl AttributeError"
    using assms(5,6) by (intro fix_status_raises) simp_all
  have sh: "standardize_headers lib out = out"
    by (rule standardize_headers_fixed [OF assms(3)])
  have rd: "remove_duplicates out = ?t" by (simp add: remove_duplicates_def)
  show ?thesis
    unfolding clean_data_def Let_def sh rd
    by (simp only: st(2) s sum.case prod.case)
qed

subsection \<open>The result as input\<close>

lemma sample_reads_back:
  "to_numeric sample_lib (remove_commas (str_num sample_lib 1000)) = Number 1000"
  "to_numeric sample_lib (remove_commas (str_num sample_lib 0)) = Number 0"
  by code_simp+

lemma sales_clean_positions:
  "col_index amount_col (names sales_clean) = 2"
  "col_index status_col (names sales_clean) = 3"
  by code_simp+

lemma sales_clean_rows:
  "rows sales_clean =
     [[Str ''John Doe'', Date (Ymd 2024 1 1), Number 1000, Str ''Paid''],
      [Str ''Sarah Connor'', Date (Ymd 2024 1 4), Number 0, Str ''Not-Paid'']]"
  by (simp add: sales_clean_def)

lemma sales_clean_names_fixed: "\<forall>n \<in> set (names sales_clean). normalize_name sample_lib n = n"
  by code_simp

lemma sales_clean_reads_back:
  "amount_col \<in> set (names sales_clean) \<longrightarrow>
     (\<forall>r \<in> set (rows sales_clean). \<forall>x.
        r ! col_index amount_col (names sales_clean) = Number x \<longrightarrow>
        to_numeric sample_lib (remove_commas (str_num sample_lib x)) = Number x)"
  using sample_reads_back by (auto simp: sales_clean_positions sales_clean_rows)

lemma sales_clean_titles_fixed:
  "status_col \<in> set (names sales_clean) \<longrightarrow>
     (\<forall>r \<in> set (rows sales_clean). \<forall>s.
        r ! col_index status_col (names sales_clean) = Text s \<longrightarrow> py_title sample_lib s = s)"
proof -
  have "py_title sample_lib (ascii ''Paid'') = ascii ''Paid''"
    "py_title sample_lib (ascii ''Not-Paid'') = ascii ''Not-Paid''"
    by code_simp+
  then show ?thesis by (auto simp: sales_clean_positions sales_clean_rows)
qed

lemma sales_clean_status_dtype:
  "dtypes sales_clean ! col_index status_col (names sales_clean) = ObjectD"
  by code_simp

lemma sales_clean_distinct: "distinct (rows sales_clean)"
  by code_simp

text \<open>
  C1 (amended). Run on its own result, the pipeline either raises or keeps the header,
  the dtypes and every cell and drops no row for its date. It raises AttributeError
  when the first run left the status column as a numeric column of missing values
  (the column held values, none of them text). Otherwise it returns the result with
  the rows removed that the first run made equal to an earlier row, and with that
  count in the second log entry; so a result without equal rows comes back as it is,
  and from the second run on the table no longer changes. This is under three facts
  about the library, which hold for Python: a number of the amount column reads back
  from its printed form, a normalized column name is left as it is by normalization,
  and a title-cased status is left as it is by title-casing (the last two are proved
  here for ASCII text).
\<close>

theorem rerun_on_own_output:
  assumes "wf_table df" and "clean_data lib df = Inr (out, logs)"
    and "\<forall>n \<in> set (names out). normalize_name lib n = n"
    and "amount_col \<in> set (names out) \<longrightarrow>
           (\<forall>r \<in> set (rows out). \<forall>x. r ! col_index amount_col (names out) = Number x \<longrightarrow>
              to_numeric lib (remove_commas (str_num lib x)) = Number x)"
    and "status_col \<in> set (names out) \<longrightarrow>
           (\<forall>r \<in> set (rows out). \<forall>s. r ! col_index status_col (names out) = Text s \<longrightarrow>
              py_title lib s = s)"
  shows "((status_col \<in> set (names out) \<longrightarrow>
             dtypes out ! col_index status_col (names out) = ObjectD) \<longrightarrow>
           clean_data lib out =
             Inr (out\<lparr>rows := drop_duplicates (rows out)\<rparr>,
                  logs[1 := msg_removed (length (rows out) - length (drop_duplicates (rows out)))])
           \<and> (distinct (rows out) \<longrightarrow> clean_data lib out = Inr (out, logs[1 := msg_removed 0]))
           \<and> clean_data lib (out\<lparr>rows := drop_duplicates (rows out)\<rparr>) =
               Inr (out\<lparr>rows := drop_duplicates (rows out)\<rparr>, logs[1 := msg_removed 0]))
       \<and> (status_col \<in> set (names out)
            \<and> dtypes out ! col_index status_col (names out) \<noteq> ObjectD \<longrightarrow>
           clean_data lib out = Inl AttributeError)
       \<and> (\<forall>n. is_ascii n \<longrightarrow>
             normalize_name lib (normalize_name lib n) = normalize_name lib n)
       \<and> (\<forall>s. is_ascii s \<longrightarrow> py_title lib (py_title lib s) = py_title lib s)"
proof -
  let ?t = "out\<lparr>rows := drop_duplicates (rows out)\<rparr>"
  let ?logs2 = "logs[1 := msg_removed (length (rows out) - length (drop_duplicates (rows out)))]"
  have hn: "normalize_name lib n = n" if "n \<in> set (names out)" for n
    using assms(3) that by blast
  have rb: "to_numeric lib (remove_commas (str_num lib x)) = Number x"
    if "amount_col \<in> set (names out)" "r \<in> set (rows out)"
      "r ! col_index amount_col (names out) = Number x" for r x
    using assms(4) that by blast
  have tf: "py_title lib s = s"
    if "status_col \<in> set (names out)" "r \<in> set (rows out)"
      "r ! col_index status_col (names out) = Text s" for r s
    using assms(5) that by blast
  have returns: "clean_data lib out = Inr (?t, ?logs2)
           \<and> (distinct (rows out) \<longrightarrow> clean_data lib out = Inr (out, logs[1 := msg_removed 0]))
           \<and> clean_data lib ?t = Inr (?t, logs[1 := msg_removed 0])"
    if dt: "status_col \<in> set (names out) \<longrightarrow>
             dtypes out ! col_index status_col (names out) = ObjectD"
  proof -
    have dt': "dtypes out ! col_index status_col (names out) = ObjectD"
      if "status_col \<in> set (names out)"
      using dt that by blast
    have second: "clean_data lib out = Inr (?t, ?logs2)"
      by (rule clean_data_rerun [OF assms(1,2) hn rb tf dt'])
    have same: "clean_data lib out = Inr (out, logs[1 := msg_removed 0])"
      if "distinct (rows out)"
      using second that by (simp add: drop_duplicates_distinct)
    have "clean_data lib ?t =
        Inr (?t\<lparr>rows := drop_duplicates (rows ?t)\<rparr>,
             ?logs2[1 := msg_removed (length (rows ?t) - length (drop_duplicates (rows ?t)))])"
    proof (rule clean_data_rerun [OF clean_data_wf [OF assms(1,2)] second])
      fix n assume "n \<in> set (names ?t)"
      then show "normalize_name lib n = n" using hn by simp
    next
      fix r x
      assume "amount_col \<in> set (names ?t)" "r \<in> set (rows ?t)"
        "r ! col_index amount_col (names ?t) = Number x"
      then show "to_numeric lib (remove_commas (str_num lib x)) = Number x"
        using rb [of r x] by (simp add: set_drop_duplicates)
    next
      fix r s
      assume "status_col \<in> set (names ?t)" "r \<in> set (rows ?t)"
        "r ! col_index status_col (names ?t) = Text s"
      then show "py_title lib s = s"
        using tf [of r s] by (simp add: set_drop_duplicates)
    next
      assume "status_col \<in> set (names ?t)"
      then show "dtypes ?t ! col_index status_col (names ?t) = ObjectD"
        using dt' by simp
    qed
    then have third: "clean_data lib ?t = Inr (?t, logs[1 := msg_removed 0])"
      by (simp add: drop_duplicates_idem)
    from second same third show ?thesis by blast
  qed
  have raises: "clean_data lib out = Inl AttributeError"
    if "status_col \<in> set (names out)"
      "dtypes out ! col_index status_col (names out) \<noteq> ObjectD"
    by (rule clean_data_rerun_raises [OF assms(1,2) hn rb that])
  from returns raises normalize_name_idem [of _ lib] py_title_idem [of _ lib]
  show ?thesis by blast
qed

theorem rerun_on_own_output_witness:
  "wf_table sales_table
   \<and> clean_data sample_lib sales_table = Inr (sales_clean, sales_logs)
   \<and> dtypes sales_clean ! col_index status_col (names sales_clean) = ObjectD
   \<and> distinct (rows sales_clean)
   \<and> clean_data sample_lib sales_clean = Inr (sales_clean, sales_logs[1 := msg_removed 0])"
  using rerun_on_own_output [OF sales_wf sales_run sales_clean_names_fixed
      sales_clean_reads_back sales_clean_titles_fixed]
    sales_wf sales_run sales_clean_distinct sales_clean_status_dtype
  by blast

theorem rerun_counterexample:
  "clean_data sample_lib paid_table = Inr (paid_clean, [msg_headers, msg_removed 0, msg_status])
   \<and> clean_data sample_lib paid_clean
       = Inr (paid_clean_again, [msg_headers, msg_removed 1, msg_status])
   \<and> rows paid_clean = [[Str ''Paid''], [Str ''Paid'']]
   \<and> rows paid_clean_again = [[Str ''Paid'']]
   \<and> paid_clean_again \<noteq> paid_clean
   \<and> clean_data sample_lib codes_table
       = Inr (codes_clean, [msg_headers, msg_removed 0, msg_status])
   \<and> clean_data sample_lib codes_clean = Inl AttributeError"
  by code_simp

subsection \<open>When the pipeline returns\<close>

lemma count_list_distinct: "distinct xs \<Longrightarrow> x \<in> set xs \<Longrightarrow> count_list xs x = 1"
  by (induction xs) auto

lemma fix_amount_status_column:
  assumes "fix_amount lib t = Inr (t', l)" and "status_col \<in> set (names t)"
  shows "column (col_index status_col (names t)) (rows t')
           = column (col_index status_col (names t)) (rows t)"
    and "dtypes t' ! col_index status_col (names t) = dtypes t ! col_index status_col (names t)"
proof -
  let ?i = "col_index status_col (names t)"
  have ni: "names t ! ?i \<noteq> amount_col" using col_index_nth [OF assms(2)] by simp
  show "dtypes t' ! ?i = dtypes t ! ?i" by (rule fix_amount_dtypes(2) [OF assms(1) ni])
  show "column ?i (rows t') = column ?i (rows t)"
  proof (cases "amount_col \<in> set (names t)")
    case True
    show ?thesis
      by (subst fix_amount_present(2) [OF assms(1) True])
         (simp add: column_def update_other [OF True ni])
  next
    case False
    with assms(1) show ?thesis by (simp add: fix_amount_def)
  qed
qed

lemma clean_data_returns:
  assumes "distinct (map (normalize_name lib) (names df))"
    and "status_col \<in> set (map (normalize_name lib) (names df)) \<Longrightarrow>
           str_accessor_ok (dtypes df ! col_index status_col (map (normalize_name lib) (names df)))
             (column (col_index status_col (map (normalize_name lib) (names df)))
                (drop_duplicates (rows df)))"
  shows "\<exists>out logs. clean_data lib df = Inr (out, logs)"
proof -
  let ?N = "map (normalize_name lib) (names df)"
  let ?t2 = "remove_duplicates (standardize_headers lib df)"
  have n2: "names ?t2 = ?N" by (rule names_after_dedup)
  have single: "single_column n t" if "names t = ?N" "n \<in> set ?N" for n t
    using that count_list_distinct [OF assms(1)] by (simp add: single_column_def)
  obtain t3 l3 where a: "fix_amount lib ?t2 = Inr (t3, l3)"
    using single [OF n2, of "amount_col"] by (cases "amount_col \<in> set ?N")
      (simp_all add: fix_amount_def Let_def n2)
  have n3: "names t3 = ?N" using fix_amount_shape(1) [OF a] n2 by simp
  obtain t4 l4 where s: "fix_status lib t3 = Inr (t4, l4)"
  proof (cases "status_col \<in> set ?N")
    case True
    then have m2: "status_col \<in> set (names ?t2)" by (simp add: n2)
    have "str_accessor_ok (dtypes t3 ! col_index status_col ?N)
            (column (col_index status_col ?N) (rows t3))"
      using fix_amount_status_column [OF a m2] assms(2) [OF True]
      by (simp add: n2 rows_after_dedup) (simp add: remove_duplicates_def standardize_headers_def)
    then show ?thesis
      using that single [OF n3 True] True by (simp add: fix_status_def Let_def n3)
  next
    case False
    then show ?thesis using that by (simp add: fix_status_def n3)
  qed
  have n4: "names t4 = ?N" using fix_status_shape(1) [OF s] n3 by simp
  obtain t5 l5 where d: "fix_date lib t4 = Inr (t5, l5)"
    using single [OF n4, of "date_col"] by (cases "date_col \<in> set ?N")
      (simp_all add: fix_date_def Let_def n4)
  show ?thesis using a s d by (simp add: clean_data_def Let_def)
qed

end
